theory Spec2Isabelle
  imports Complex_Main "HOL-Library.Char_ord" "HOL-Library.Sublist"
begin

section \<open>JavaScript values and strings\<close>

text \<open>
  A JavaScript string is a sequence of UTF-16 code units. The model uses \<open>string\<close>
  (a list of 8-bit \<open>char\<close>s) and reads every \<open>char\<close> as the code unit of the same
  number, so the model covers the strings whose code units are below 256 (ASCII and
  Latin-1), and \<open>length\<close> is the \<open>.length\<close> of the source.
\<close>

definition code_unit :: "char \<Rightarrow> nat" where
  "code_unit c = of_char c"

text \<open>The class \<open>\s\<close> of a regular expression, which is also what \<open>trim\<close> strips:
  tab, line feed, vertical tab, form feed, carriage return, space and no-break space
  (the other members of the class lie above code unit 255).\<close>

definition is_space :: "char \<Rightarrow> bool" where
  "is_space c = (code_unit c = 9 \<or> code_unit c = 10 \<or> code_unit c = 11 \<or> code_unit c = 12 \<or> code_unit c = 13
     \<or> code_unit c = 32 \<or> code_unit c = 160)"

definition is_digit :: "char \<Rightarrow> bool" where
  "is_digit c = (48 \<le> code_unit c \<and> code_unit c \<le> 57)"

definition is_upper :: "char \<Rightarrow> bool" where
  "is_upper c = (65 \<le> code_unit c \<and> code_unit c \<le> 90)"

definition is_lower :: "char \<Rightarrow> bool" where
  "is_lower c = (97 \<le> code_unit c \<and> code_unit c \<le> 122)"

definition is_alpha :: "char \<Rightarrow> bool" where
  "is_alpha c = (is_upper c \<or> is_lower c)"

text \<open>The class \<open>\w\<close>: \<open>[A-Za-z0-9_]\<close>.\<close>

definition is_word :: "char \<Rightarrow> bool" where
  "is_word c = (is_alpha c \<or> is_digit c \<or> code_unit c = 95)"

text \<open>\<open>String.prototype.toLowerCase\<close> on code units below 256: the ASCII capitals and
  the Latin-1 capitals 0xC0..0xDE (but not the multiplication sign 0xD7) move up by 32.\<close>

definition lower_char :: "char \<Rightarrow> char" where
  "lower_char c = (if is_upper c \<or> (192 \<le> code_unit c \<and> code_unit c \<le> 222 \<and> code_unit c \<noteq> 215)
     then char_of (code_unit c + 32) else c)"

definition toLowerCase :: "string \<Rightarrow> string" where
  "toLowerCase s = map lower_char s"

text \<open>\<open>toUpperCase\<close> is only applied to strings of ASCII letters, digits (see
  \<open>normalizePiiKey\<close>), where it moves the small letters down by 32.\<close>

definition upper_char :: "char \<Rightarrow> char" where
  "upper_char c = (if is_lower c then char_of (code_unit c - 32) else c)"

definition toUpperCase :: "string \<Rightarrow> string" where
  "toUpperCase s = map upper_char s"

definition trim :: "string \<Rightarrow> string" where
  "trim s = rev (dropWhile is_space (rev (dropWhile is_space s)))"

text \<open>\<open>Array.prototype.join\<close> on strings.\<close>

fun join :: "string \<Rightarrow> string list \<Rightarrow> string" where
  "join sep [] = []"
| "join sep [x] = x"
| "join sep (x # y # ys) = x @ sep @ join sep (y # ys)"

text \<open>Decimal digits of a natural number, as a template literal or \<open>String(n)\<close> prints an
  integer.\<close>

definition digit_char :: "nat \<Rightarrow> char" where
  "digit_char d = char_of (48 + d)"

fun string_of_nat :: "nat \<Rightarrow> string" where
  "string_of_nat n = (if n < 10 then [digit_char n]
     else string_of_nat (n div 10) @ [digit_char (n mod 10)])"

declare string_of_nat.simps [simp del]

text \<open>A JavaScript number is an IEEE double: a finite value, or one of the three special
  values. Only \<open>typeof\<close> and \<open>Number.isFinite\<close> are asked of the numbers that travel
  inside results.\<close>

datatype number = Num real | NaN | PosInfinity | NegInfinity

datatype jsval =
    JUndefined
  | JNull
  | JBool bool
  | JNum number
  | JStr string
  | JArr "jsval list"
  | JObj "(string \<times> jsval) list"

text \<open>Reading a property: the value bound to the key, \<open>undefined\<close> when the object has no
  such property.\<close>

definition get_prop :: "jsval \<Rightarrow> string \<Rightarrow> jsval" where
  "get_prop v k = (case v of
      JObj kvs \<Rightarrow> (case map_of kvs k of Some x \<Rightarrow> x | None \<Rightarrow> JUndefined)
    | _ \<Rightarrow> JUndefined)"

text \<open>Setting a key of an insertion-ordered collection (an own property of an object, an
  entry of a \<open>Map\<close>): the key keeps its place when it is there, and is added last
  otherwise. The object spread \<open>{ ...obj, k: v }\<close> does this to a copy.\<close>

fun set_binding :: "'k \<Rightarrow> 'v \<Rightarrow> ('k \<times> 'v) list \<Rightarrow> ('k \<times> 'v) list" where
  "set_binding k v [] = [(k, v)]"
| "set_binding k v ((k', v') # kvs) =
     (if k' = k then (k, v) # kvs else (k', v') # set_binding k v kvs)"

definition spread_with :: "jsval \<Rightarrow> string \<Rightarrow> jsval \<Rightarrow> jsval" where
  "spread_with obj k v = (case obj of JObj kvs \<Rightarrow> JObj (set_binding k v kvs) | _ \<Rightarrow> JObj [(k, v)])"

section \<open>The result contract (types.ts)\<close>

record ImprovementEvidence =
  resumeQuotes :: "string list"
  jdQuotes :: "string list"
  missingKeywords :: "string list"

datatype Category = Critical | Optional

record Improvement =
  point :: "string option"
  category :: Category
  impact :: "string option"
  evidence :: ImprovementEvidence

record ScoreBreakdown =
  baseline :: "number option"
  enhanced :: "number option"
  explanation :: "string option"

record KeywordCoverage =
  matched :: "string list"
  missing :: "string list"
  partial :: "string list"

record RetrievalTraceEntry =
  chunkId :: string
  reason :: string

record AnalysisTrace =
  inputHash :: string
  retrievalChunkIds :: "string list"
  retrievalTrace :: "RetrievalTraceEntry list"
  modelName :: string
  tier :: string
  timestamp :: string
  retries :: number

datatype Language = English | German

record AnalysisResult =
  scoreBreakdown :: ScoreBreakdown
  jobFitScore :: "number option"
  overallFeedback :: "string option"
  improvements :: "Improvement list"
  optimizedResume :: "string option"
  optimizedCoverLetter :: "string option"
  languageDetected :: "Language option"
  portfolioAdvice :: "string option"
  recruiterNotes :: "string option"
  evidenceSnippetWordLimit :: number
  keywordCoverage :: KeywordCoverage
  hardRequirementsMissing :: "string list"
  analysisTrace :: AnalysisTrace

text \<open>A typed value as the untyped object the validator receives: \<open>T | null\<close> is \<open>null\<close>
  or the value, an interface is the object of its properties.\<close>

definition js_nullable_string :: "string option \<Rightarrow> jsval" where
  "js_nullable_string v = (case v of None \<Rightarrow> JNull | Some s \<Rightarrow> JStr s)"

definition js_nullable_number :: "number option \<Rightarrow> jsval" where
  "js_nullable_number v = (case v of None \<Rightarrow> JNull | Some n \<Rightarrow> JNum n)"

definition js_strings :: "string list \<Rightarrow> jsval" where
  "js_strings xs = JArr (map JStr xs)"

definition js_category :: "Category \<Rightarrow> jsval" where
  "js_category c = (case c of Critical \<Rightarrow> JStr ''critical'' | Optional \<Rightarrow> JStr ''optional'')"

definition js_language :: "Language option \<Rightarrow> jsval" where
  "js_language l = (case l of None \<Rightarrow> JNull | Some English \<Rightarrow> JStr ''English''
     | Some German \<Rightarrow> JStr ''German'')"

definition js_evidence :: "ImprovementEvidence \<Rightarrow> jsval" where
  "js_evidence e = JObj [
     (''resumeQuotes'', js_strings (resumeQuotes e)),
     (''jdQuotes'', js_strings (jdQuotes e)),
     (''missingKeywords'', js_strings (missingKeywords e))]"

definition js_improvement :: "Improvement \<Rightarrow> jsval" where
  "js_improvement i = JObj [
     (''point'', js_nullable_string (point i)),
     (''category'', js_category (category i)),
     (''impact'', js_nullable_string (impact i)),
     (''evidence'', js_evidence (evidence i))]"

definition js_score_breakdown :: "ScoreBreakdown \<Rightarrow> jsval" where
  "js_score_breakdown b = JObj [
     (''baseline'', js_nullable_number (baseline b)),
     (''enhanced'', js_nullable_number (enhanced b)),
     (''explanation'', js_nullable_string (explanation b))]"

definition js_keyword_coverage :: "KeywordCoverage \<Rightarrow> jsval" where
  "js_keyword_coverage c = JObj [
     (''matched'', js_strings (matched c)),
     (''missing'', js_strings (missing c)),
     (''partial'', js_strings (partial c))]"

definition js_trace_entry :: "RetrievalTraceEntry \<Rightarrow> jsval" where
  "js_trace_entry e = JObj [(''chunkId'', JStr (chunkId e)), (''reason'', JStr (reason e))]"

definition js_analysis_trace :: "AnalysisTrace \<Rightarrow> jsval" where
  "js_analysis_trace t = JObj [
     (''inputHash'', JStr (inputHash t)),
     (''retrievalChunkIds'', js_strings (retrievalChunkIds t)),
     (''retrievalTrace'', JArr (map js_trace_entry (retrievalTrace t))),
     (''modelName'', JStr (modelName t)),
     (''tier'', JStr (tier t)),
     (''timestamp'', JStr (timestamp t)),
     (''retries'', JNum (retries t))]"

definition js_analysis_result :: "AnalysisResult \<Rightarrow> jsval" where
  "js_analysis_result r = JObj [
     (''scoreBreakdown'', js_score_breakdown (scoreBreakdown r)),
     (''jobFitScore'', js_nullable_number (jobFitScore r)),
     (''overallFeedback'', js_nullable_string (overallFeedback r)),
     (''improvements'', JArr (map js_improvement (improvements r))),
     (''optimizedResume'', js_nullable_string (optimizedResume r)),
     (''optimizedCoverLetter'', js_nullable_string (optimizedCoverLetter r)),
     (''languageDetected'', js_language (languageDetected r)),
     (''portfolioAdvice'', js_nullable_string (portfolioAdvice r)),
     (''recruiterNotes'', js_nullable_string (recruiterNotes r)),
     (''evidenceSnippetWordLimit'', JNum (evidenceSnippetWordLimit r)),
     (''keywordCoverage'', js_keyword_coverage (keywordCoverage r)),
     (''hardRequirementsMissing'', js_strings (hardRequirementsMissing r)),
     (''analysisTrace'', js_analysis_trace (analysisTrace r))]"

section \<open>analysisSchemaService.ts\<close>

record ValidationResult =
  valid :: bool
  errors :: "string list"

definition isObject :: "jsval \<Rightarrow> bool" where
  "isObject v = (case v of JObj _ \<Rightarrow> True | _ \<Rightarrow> False)"

definition isString :: "jsval \<Rightarrow> bool" where
  "isString v = (case v of JStr _ \<Rightarrow> True | _ \<Rightarrow> False)"

definition isNumber :: "jsval \<Rightarrow> bool" where
  "isNumber v = (case v of JNum _ \<Rightarrow> True | _ \<Rightarrow> False)"

definition isStringArray :: "jsval \<Rightarrow> bool" where
  "isStringArray v = (case v of JArr xs \<Rightarrow> list_all isString xs | _ \<Rightarrow> False)"

definition isRetrievalTraceArray :: "jsval \<Rightarrow> bool" where
  "isRetrievalTraceArray v = (case v of
      JArr xs \<Rightarrow> list_all (\<lambda>entry. isObject entry \<and> isString (get_prop entry ''chunkId'')
                              \<and> isString (get_prop entry ''reason'')) xs
    | _ \<Rightarrow> False)"

definition isNullableNumber :: "jsval \<Rightarrow> bool" where
  "isNullableNumber v = (v = JNull \<or> isNumber v)"

definition isNullableString :: "jsval \<Rightarrow> bool" where
  "isNullableString v = (v = JNull \<or> isString v)"

text \<open>\<open>errors.push(msg)\<close> under a condition: the messages a check adds.\<close>

definition push_unless :: "bool \<Rightarrow> string \<Rightarrow> string list" where
  "push_unless ok msg = (if ok then [] else [msg])"

definition improvement_errors :: "nat \<Rightarrow> jsval \<Rightarrow> string list" where
  "improvement_errors index improvement =
    (let path = ''improvements['' @ string_of_nat index @ '']'' in
     if \<not> isObject improvement then [path @ '' must be an object.'']
     else
       push_unless (isNullableString (get_prop improvement ''point'')) (path @ ''.point must be string|null.'')
       @ push_unless (get_prop improvement ''category'' = JStr ''critical''
                      \<or> get_prop improvement ''category'' = JStr ''optional'')
           (path @ ''.category must be '' @ [CHR 0x22] @ ''critical'' @ [CHR 0x22] @ ''|''
               @ [CHR 0x22] @ ''optional'' @ [CHR 0x22] @ ''.'')
       @ push_unless (isNullableString (get_prop improvement ''impact'')) (path @ ''.impact must be string|null.'')
       @ (if \<not> isObject (get_prop improvement ''evidence'') then [path @ ''.evidence must be an object.'']
          else
            push_unless (isStringArray (get_prop (get_prop improvement ''evidence'') ''resumeQuotes''))
              (path @ ''.evidence.resumeQuotes must be string[].'')
            @ push_unless (isStringArray (get_prop (get_prop improvement ''evidence'') ''jdQuotes''))
              (path @ ''.evidence.jdQuotes must be string[].'')
            @ push_unless (isStringArray (get_prop (get_prop improvement ''evidence'') ''missingKeywords''))
              (path @ ''.evidence.missingKeywords must be string[].'')))"

text \<open>\<open>forEach((improvement, index) => ...)\<close>, from the given index on.\<close>

fun improvements_errors :: "nat \<Rightarrow> jsval list \<Rightarrow> string list" where
  "improvements_errors index [] = []"
| "improvements_errors index (x # xs) = improvement_errors index x @ improvements_errors (Suc index) xs"

definition schema_errors :: "jsval \<Rightarrow> string list" where
  "schema_errors result =
    (if \<not> isObject (get_prop result ''scoreBreakdown'')
     then [''scoreBreakdown is required and must be an object.'']
     else
       push_unless (isNullableNumber (get_prop (get_prop result ''scoreBreakdown'') ''baseline''))
         ''scoreBreakdown.baseline must be number|null.''
       @ push_unless (isNullableNumber (get_prop (get_prop result ''scoreBreakdown'') ''enhanced''))
         ''scoreBreakdown.enhanced must be number|null.''
       @ push_unless (isNullableString (get_prop (get_prop result ''scoreBreakdown'') ''explanation''))
         ''scoreBreakdown.explanation must be string|null.'')
    @ push_unless (isNullableNumber (get_prop result ''jobFitScore'')) ''jobFitScore must be number|null.''
    @ push_unless (isNullableString (get_prop result ''overallFeedback'')) ''overallFeedback must be string|null.''
    @ push_unless (isNullableString (get_prop result ''optimizedResume'')) ''optimizedResume must be string|null.''
    @ push_unless (isNullableString (get_prop result ''optimizedCoverLetter''))
        ''optimizedCoverLetter must be string|null.''
    @ push_unless (isNullableString (get_prop result ''portfolioAdvice'')) ''portfolioAdvice must be string|null.''
    @ push_unless (isNullableString (get_prop result ''recruiterNotes'')) ''recruiterNotes must be string|null.''
    @ push_unless (isNumber (get_prop result ''evidenceSnippetWordLimit''))
        ''evidenceSnippetWordLimit must be a number.''
    @ (if \<not> isObject (get_prop result ''keywordCoverage'')
       then [''keywordCoverage is required and must be an object.'']
       else
         push_unless (isStringArray (get_prop (get_prop result ''keywordCoverage'') ''matched''))
           ''keywordCoverage.matched must be string[].''
         @ push_unless (isStringArray (get_prop (get_prop result ''keywordCoverage'') ''missing''))
           ''keywordCoverage.missing must be string[].''
         @ push_unless (isStringArray (get_prop (get_prop result ''keywordCoverage'') ''partial''))
           ''keywordCoverage.partial must be string[].'')
    @ push_unless (isStringArray (get_prop result ''hardRequirementsMissing''))
        ''hardRequirementsMissing must be string[].''
    @ (case get_prop result ''improvements'' of
         JArr xs \<Rightarrow> improvements_errors 0 xs
       | _ \<Rightarrow> [''improvements must be an array.''])
    @ (if \<not> isObject (get_prop result ''analysisTrace'')
       then [''analysisTrace is required and must be an object.'']
       else
         push_unless (isString (get_prop (get_prop result ''analysisTrace'') ''inputHash''))
           ''analysisTrace.inputHash must be string.''
         @ push_unless (isStringArray (get_prop (get_prop result ''analysisTrace'') ''retrievalChunkIds''))
           ''analysisTrace.retrievalChunkIds must be string[].''
         @ push_unless (isRetrievalTraceArray (get_prop (get_prop result ''analysisTrace'') ''retrievalTrace''))
           ''analysisTrace.retrievalTrace must be { chunkId: string; reason: string }[].''
         @ push_unless (isString (get_prop (get_prop result ''analysisTrace'') ''modelName''))
           ''analysisTrace.modelName must be string.''
         @ push_unless (isString (get_prop (get_prop result ''analysisTrace'') ''tier''))
           ''analysisTrace.tier must be string.''
         @ push_unless (isString (get_prop (get_prop result ''analysisTrace'') ''timestamp''))
           ''analysisTrace.timestamp must be string.''
         @ push_unless (isNumber (get_prop (get_prop result ''analysisTrace'') ''retries''))
           ''analysisTrace.retries must be number.'')"

definition validateAnalysisResultSchema :: "jsval \<Rightarrow> ValidationResult" where
  "validateAnalysisResultSchema v =
    (if \<not> isObject v then \<lparr>valid = False, errors = [''Result must be an object.'']\<rparr>
     else \<lparr>valid = (length (schema_errors v) = 0), errors = schema_errors v\<rparr>)"

text \<open>The malformed payload of the schema test:
  \<open>{ ...result, analysisTrace: { ...result.analysisTrace, retries: x } }\<close>.\<close>

definition with_retries :: "AnalysisResult \<Rightarrow> jsval \<Rightarrow> jsval" where
  "with_retries r x =
     spread_with (js_analysis_result r) ''analysisTrace''
       (spread_with (js_analysis_trace (analysisTrace r)) ''retries'' x)"

text \<open>The valid result of the schema test.\<close>

definition validResult :: AnalysisResult where
  "validResult = \<lparr>
     scoreBreakdown = \<lparr>baseline = Some (Num 62), enhanced = Some (Num 79),
       explanation = Some ''Keyword and requirement coverage improved.''\<rparr>,
     jobFitScore = Some (Num 79),
     overallFeedback = Some ''Good alignment with role requirements.'',
     improvements = [\<lparr>point = Some ''Add production-grade ML deployment evidence.'',
       category = Critical, impact = Some ''Stronger ATS relevance.'',
       evidence = \<lparr>resumeQuotes = [''Built ML pipelines in Python and SQL''],
         jdQuotes = [''Experience deploying ML models to production''],
         missingKeywords = [''MLOps'', ''CI/CD'']\<rparr>\<rparr>],
     optimizedResume = Some ''Optimized resume body'',
     optimizedCoverLetter = Some ''Optimized cover letter body'',
     languageDetected = Some English,
     portfolioAdvice = Some ''Highlight production repositories.'',
     recruiterNotes = Some ''Use stronger impact framing.'',
     evidenceSnippetWordLimit = Num 20,
     keywordCoverage = \<lparr>matched = [''python'', ''sql''], missing = [''mlops''], partial = []\<rparr>,
     hardRequirementsMissing = [''3+ years MLOps''],
     analysisTrace = \<lparr>inputHash = ''abc123'', retrievalChunkIds = [''resumeContent:0:0-120''],
       retrievalTrace = [\<lparr>chunkId = ''resumeContent:0:0-120'',
         reason = ''Prioritized resume chunk for deterministic relevance.''\<rparr>],
       modelName = ''gemini-2.5-pro'', tier = ''MEDIUM'', timestamp = ''2026-02-15T12:00:00.000Z'',
       retries = Num 1\<rparr>\<rparr>"

section \<open>geminiService.ts: retry with backoff\<close>

text \<open>
  What the code asks of a thrown value: its \<open>status\<close> and \<open>code\<close> properties
  (\<open>undefined\<close> when absent), its \<open>message\<close> property (\<open>None\<close> when it is null or
  undefined, otherwise the string \<open>String(message)\<close>), and \<open>String(error)\<close>.
\<close>

record thrown =
  status :: jsval
  code :: jsval
  message :: "string option"
  shown :: string

text \<open>\<open>String.prototype.includes\<close>.\<close>

fun str_includes :: "string \<Rightarrow> string \<Rightarrow> bool" where
  "str_includes [] sub = (sub = [])"
| "str_includes (c # cs) sub = (prefix sub (c # cs) \<or> str_includes cs sub)"

definition MAX_RETRY_ATTEMPTS :: nat where
  "MAX_RETRY_ATTEMPTS = 3"

definition BASE_BACKOFF_MS :: nat where
  "BASE_BACKOFF_MS = 400"

definition TRANSIENT_STATUS_CODES :: "number list" where
  "TRANSIENT_STATUS_CODES = [Num 408, Num 409, Num 425, Num 429, Num 500, Num 502, Num 503, Num 504]"

definition isTransientError :: "thrown \<Rightarrow> bool" where
  "isTransientError error =
    (let st = (case status error of
                 JNum n \<Rightarrow> Some n
               | _ \<Rightarrow> (case code error of JNum n \<Rightarrow> Some n | _ \<Rightarrow> None)) in
     if (case st of Some n \<Rightarrow> n \<in> set TRANSIENT_STATUS_CODES | None \<Rightarrow> False) then True
     else
       (let msg = toLowerCase (case message error of Some m \<Rightarrow> m | None \<Rightarrow> shown error) in
        str_includes msg ''timeout'' \<or>
        str_includes msg ''timed out'' \<or>
        str_includes msg ''rate limit'' \<or>
        str_includes msg ''too many requests'' \<or>
        str_includes msg ''temporar'' \<or>
        str_includes msg ''network'' \<or>
        str_includes msg ''econnreset'' \<or>
        str_includes msg ''503'' \<or>
        str_includes msg ''502'' \<or>
        str_includes msg ''500'' \<or>
        str_includes msg ''429''))"

text \<open>
  The operation is an effectful call; \<open>operation k\<close> is what its \<open>k\<close>-th call does
  (calls are numbered from 1, as the loop numbers its attempts). A run of \<open>withRetry\<close>
  yields what it returns or throws, and what it did on the way: the number of calls of the
  operation, the delays it slept (in milliseconds, in order) and the number of \<open>onRetry\<close>
  notifications.
\<close>

datatype 'a attempt = Returns 'a | Throws thrown

record 'a retry_run =
  outcome :: "thrown + 'a"
  attempts :: nat
  sleeps :: "nat list"
  notified :: nat

text \<open>The error of the statement after the loop, reached only when the loop body never ran
  or fell through.\<close>

definition exhausted_error :: "string \<Rightarrow> nat \<Rightarrow> thrown option \<Rightarrow> thrown" where
  "exhausted_error operationName maxAttempts lastError =
    (let text = operationName @ '' failed after '' @ string_of_nat maxAttempts @ '' attempts: ''
                @ (case lastError of None \<Rightarrow> ''undefined'' | Some e \<Rightarrow> shown e) in
     \<lparr>status = JUndefined, code = JUndefined, message = Some text, shown = ''Error: '' @ text\<rparr>)"

function withRetry_loop ::
  "string \<Rightarrow> (nat \<Rightarrow> 'a attempt) \<Rightarrow> nat \<Rightarrow> nat \<Rightarrow> thrown option \<Rightarrow> nat list \<Rightarrow> 'a retry_run"
where
  "withRetry_loop operationName operation maxAttempts attempt lastError slept =
    (if attempt \<le> maxAttempts then
       (case operation attempt of
          Returns v \<Rightarrow>
            \<lparr>outcome = Inr v, attempts = attempt, sleeps = slept, notified = length slept\<rparr>
        | Throws error \<Rightarrow>
            (let shouldRetry = (attempt < maxAttempts \<and> isTransientError error) in
             if \<not> shouldRetry then
               \<lparr>outcome = Inl error, attempts = attempt, sleeps = slept, notified = length slept\<rparr>
             else
               (let delayMs = BASE_BACKOFF_MS * (2 ^ (attempt - 1)) in
                withRetry_loop operationName operation maxAttempts (attempt + 1) (Some error)
                  (slept @ [delayMs]))))
     else
       \<lparr>outcome = Inl (exhausted_error operationName maxAttempts lastError),
        attempts = attempt - 1, sleeps = slept, notified = length slept\<rparr>)"
  by pat_completeness auto
termination
  by (relation "measure (\<lambda>(n, operation, maxAttempts, attempt, e, s). maxAttempts + 1 - attempt)") auto

declare withRetry_loop.simps [simp del]

definition withRetry :: "string \<Rightarrow> (nat \<Rightarrow> 'a attempt) \<Rightarrow> nat \<Rightarrow> 'a retry_run" where
  "withRetry operationName operation maxAttempts =
     withRetry_loop operationName operation maxAttempts 1 None []"

section \<open>Regular expressions\<close>

text \<open>
  The regular expressions of the source are values of a small datatype, matched by a
  backtracking matcher that lists every way an expression can match at a position, in the
  order in which the ECMAScript matcher tries them (the first alternative before the second,
  one more iteration of a greedy quantifier before stopping). The head of the list is the
  match that JavaScript reports.
\<close>

datatype regex =
    Atom "char \<Rightarrow> bool"
  | Eps
  | Then regex regex
  | Alt regex regex
  | Rep nat "nat option" regex
  | Group nat regex
  | WordBoundary
  | LineStart
  | TextStart
  | TextEnd
  | Lazy nat "nat option" regex

text \<open>Where the matcher stands: the character before it (none at the start of the text),
  the text still ahead, and the groups captured so far.\<close>

record cursor =
  prev :: "char option"
  rest :: string
  caps :: "(nat \<times> string) list"

fun rsize :: "regex \<Rightarrow> nat" where
  "rsize (Then a b) = Suc (rsize a + rsize b)"
| "rsize (Alt a b) = Suc (rsize a + rsize b)"
| "rsize (Rep lo hi a) = Suc (rsize a)"
| "rsize (Group k a) = Suc (rsize a)"
| "rsize (Lazy lo hi a) = Suc (rsize a)"
| "rsize r = 0"

definition is_line_terminator :: "char \<Rightarrow> bool" where
  "is_line_terminator c = (code_unit c = 10 \<or> code_unit c = 13)"

definition at_word_boundary :: "cursor \<Rightarrow> bool" where
  "at_word_boundary c =
     ((case prev c of None \<Rightarrow> False | Some x \<Rightarrow> is_word x)
      \<noteq> (case rest c of [] \<Rightarrow> False | x # xs \<Rightarrow> is_word x))"

text \<open>
  \<open>Rep lo hi r\<close> is the greedy quantifier \<open>r{lo,hi}\<close> (\<open>hi = None\<close>: no upper bound). An
  iteration has to consume at least one character; every quantified sub-expression of the
  expressions below does. \<open>Group k r\<close> records what \<open>r\<close> matched as capture \<open>k\<close>.
  \<open>LineStart\<close> is \<open>^\<close> under the flag \<open>m\<close>, \<open>TextStart\<close> and \<open>TextEnd\<close> are \<open>^\<close> and
  \<open>$\<close> without it. \<open>Lazy lo hi r\<close> is the lazy quantifier \<open>r{lo,hi}?\<close>, which tries to stop
  before it tries one more iteration.
\<close>

function rx_match :: "regex \<Rightarrow> cursor \<Rightarrow> cursor list" where
  "rx_match (Atom p) c =
     (case rest c of
        [] \<Rightarrow> []
      | x # xs \<Rightarrow> if p x then [\<lparr>prev = Some x, rest = xs, caps = caps c\<rparr>] else [])"
| "rx_match Eps c = [c]"
| "rx_match (Then a b) c = concat (map (rx_match b) (rx_match a c))"
| "rx_match (Alt a b) c = rx_match a c @ rx_match b c"
| "rx_match (Rep lo hi a) c =
     (if hi = Some 0 then [c]
      else concat (map (rx_match (Rep (lo - 1) (map_option (\<lambda>h. h - 1) hi) a))
                    (filter (\<lambda>c'. length (rest c') < length (rest c)) (rx_match a c)))
           @ (if lo = 0 then [c] else []))"
| "rx_match (Group k a) c =
     map (\<lambda>c'. c'\<lparr>caps := (k, take (length (rest c) - length (rest c')) (rest c)) # caps c'\<rparr>)
       (rx_match a c)"
| "rx_match WordBoundary c = (if at_word_boundary c then [c] else [])"
| "rx_match LineStart c =
     (case prev c of None \<Rightarrow> [c] | Some x \<Rightarrow> if is_line_terminator x then [c] else [])"
| "rx_match TextStart c = (case prev c of None \<Rightarrow> [c] | Some x \<Rightarrow> [])"
| "rx_match TextEnd c = (case rest c of [] \<Rightarrow> [c] | x # xs \<Rightarrow> [])"
| "rx_match (Lazy lo hi a) c =
     (if hi = Some 0 then [c]
      else (if lo = 0 then [c] else [])
           @ concat (map (rx_match (Lazy (lo - 1) (map_option (\<lambda>h. h - 1) hi) a))
                      (filter (\<lambda>c'. length (rest c') < length (rest c)) (rx_match a c))))"
  by pat_completeness auto
termination
  by (relation "measures [\<lambda>(r, c). rsize r, \<lambda>(r, c). length (rest c)]") auto

declare rx_match.simps(5) [simp del]
declare rx_match.simps(11) [simp del]

text \<open>The leftmost match at or after a position: the text skipped before it and the cursor
  at its end.\<close>

fun rx_search :: "regex \<Rightarrow> char option \<Rightarrow> string \<Rightarrow> (string \<times> cursor) option" where
  "rx_search r p [] =
     (case rx_match r \<lparr>prev = p, rest = [], caps = []\<rparr> of
        [] \<Rightarrow> None
      | e # es \<Rightarrow> Some ([], e))"
| "rx_search r p (x # xs) =
     (case rx_match r \<lparr>prev = p, rest = x # xs, caps = []\<rparr> of
        [] \<Rightarrow> (case rx_search r (Some x) xs of
                 None \<Rightarrow> None
               | Some (skipped, e) \<Rightarrow> Some (x # skipped, e))
      | e # es \<Rightarrow> Some ([], e))"

text \<open>\<open>RegExp.prototype.test\<close> of an expression without the flag \<open>g\<close>.\<close>

definition rx_test :: "regex \<Rightarrow> string \<Rightarrow> bool" where
  "rx_test r s = (case rx_search r None s of None \<Rightarrow> False | Some m \<Rightarrow> True)"

text \<open>
  \<open>String.prototype.replace\<close> with a global expression and a callback. The callback gets
  the matched text and the captures, and threads a state (the redactor's registry): it is
  called once per match, left to right. After an empty match the scan moves on by one
  character.
\<close>

function rx_replace ::
  "regex \<Rightarrow> (string \<Rightarrow> (nat \<times> string) list \<Rightarrow> 's \<Rightarrow> string \<times> 's) \<Rightarrow> char option \<Rightarrow> string \<Rightarrow> 's
   \<Rightarrow> string \<times> 's"
where
  "rx_replace r f p s st =
    (case rx_search r p s of
       None \<Rightarrow> (s, st)
     | Some (skipped, e) \<Rightarrow>
         (let after = drop (length skipped) s;
              matched = take (length after - length (rest e)) after;
              (replacement, st') = f matched (caps e) st
          in if length (rest e) < length after then
               (let (out, st'') = rx_replace r f (prev e) (rest e) st'
                in (skipped @ replacement @ out, st''))
             else
               (case after of
                  [] \<Rightarrow> (skipped @ replacement, st')
                | x # xs \<Rightarrow>
                    (let (out, st'') = rx_replace r f (Some x) xs st'
                     in (skipped @ replacement @ x # out, st'')))))"
  by pat_completeness auto
termination
proof (relation "measure (\<lambda>(r, f, p, s, st). length s)", goal_cases)
  case 1
  show ?case by simp
next
  case 2
  then show ?case by simp
next
  case (3 r f p s st m skipped e after matched y replacement st' x xs)
  from 3 have "length (x # xs) = length (drop (length skipped) s)" by simp
  then show ?case by simp
qed

declare rx_replace.simps [simp del]

text \<open>\<open>String.prototype.match\<close> with a global expression: the matched texts, in order.\<close>

definition rx_match_all :: "regex \<Rightarrow> string \<Rightarrow> string list" where
  "rx_match_all r s = rev (snd (rx_replace r (\<lambda>m cs found. ([], m # found)) None s []))"

text \<open>Building blocks: character classes, case folding under the flag \<open>i\<close>, sequences.\<close>

definition one_of :: "string \<Rightarrow> char \<Rightarrow> bool" where
  "one_of cs c = (c \<in> set cs)"

text \<open>Under the flag \<open>i\<close> two characters match when their canonical (upper-case) forms
  agree; among code units below 256 these are a letter and its other case.\<close>

definition fold_case :: "(char \<Rightarrow> bool) \<Rightarrow> char \<Rightarrow> bool" where
  "fold_case p c = (p c \<or> p (lower_char c) \<or> p (upper_char c))"

fun seq :: "regex list \<Rightarrow> regex" where
  "seq [] = Eps"
| "seq [r] = r"
| "seq (r # rs) = Then r (seq rs)"

fun alts :: "regex list \<Rightarrow> regex" where
  "alts [] = Atom (\<lambda>c. False)"
| "alts [r] = r"
| "alts (r # rs) = Alt r (alts rs)"

definition lit :: "string \<Rightarrow> regex" where
  "lit s = seq (map (\<lambda>x. Atom (\<lambda>c. c = x)) s)"

definition lit_i :: "string \<Rightarrow> regex" where
  "lit_i s = seq (map (\<lambda>x. Atom (fold_case (\<lambda>c. c = x))) s)"

abbreviation star :: "regex \<Rightarrow> regex" where
  "star r \<equiv> Rep 0 None r"

abbreviation plus :: "regex \<Rightarrow> regex" where
  "plus r \<equiv> Rep 1 None r"

abbreviation opt :: "regex \<Rightarrow> regex" where
  "opt r \<equiv> Rep 0 (Some 1) r"

section \<open>The application input (types.ts)\<close>

datatype AnalysisMode = Fast | Balanced | Deep

text \<open>
  The metrics vault is an object with up to six optional string properties. \<open>Object.values\<close>
  walks the properties in insertion order, so the vault is the list of its own properties
  in that order; a property that is present but \<open>undefined\<close> holds \<open>None\<close>.
\<close>

type_synonym MetricsVault = "(string \<times> string option) list"

record ApplicationInput =
  jobDescription :: string
  companyInfo :: string
  resumeContent :: string
  coverLetterContent :: string
  portfolioLinks :: string
  additionalContext :: string
  analysisMode :: AnalysisMode
  privacyMode :: bool
  metricsVault :: MetricsVault

text \<open>\<open>Object.values(vault).filter(value => typeof value === "string")\<close>.\<close>

definition vault_strings :: "MetricsVault \<Rightarrow> string list" where
  "vault_strings vault = concat (map (\<lambda>(k, v). case v of None \<Rightarrow> [] | Some s \<Rightarrow> [s]) vault)"

text \<open>\<open>vault[field]\<close>.\<close>

definition vault_get :: "MetricsVault \<Rightarrow> string \<Rightarrow> string option" where
  "vault_get vault field = (case map_of vault field of None \<Rightarrow> None | Some v \<Rightarrow> v)"

section \<open>geminiService.ts: tier selection\<close>

datatype AnalysisTier = SIMPLE | MEDIUM | COMPLEX

definition SIMPLE_DOC_CHAR_LIMIT :: nat where "SIMPLE_DOC_CHAR_LIMIT = 3000"
definition COMPLEX_DOC_CHAR_LIMIT :: nat where "COMPLEX_DOC_CHAR_LIMIT = 9000"
definition COMPLEX_TOTAL_CHAR_LIMIT :: nat where "COMPLEX_TOTAL_CHAR_LIMIT = 18000"
definition APPROX_CHARS_PER_TOKEN :: nat where "APPROX_CHARS_PER_TOKEN = 4"
definition COMPLEX_TOKEN_LIMIT :: nat where "COMPLEX_TOKEN_LIMIT = 4500"

text \<open>\<open>/\bdeep\s+analysis\b|\bdeep\b/i\<close>\<close>

definition DEEP_ANALYSIS_REGEX :: regex where
  "DEEP_ANALYSIS_REGEX =
     Alt (seq [WordBoundary, lit_i ''deep'', plus (Atom is_space), lit_i ''analysis'', WordBoundary])
         (seq [WordBoundary, lit_i ''deep'', WordBoundary])"

text \<open>\<open>Math.ceil(chars / 4)\<close> on a length.\<close>

definition estimateTokensFromChars :: "nat \<Rightarrow> nat" where
  "estimateTokensFromChars chars = (chars + (APPROX_CHARS_PER_TOKEN - 1)) div APPROX_CHARS_PER_TOKEN"

definition selectTier :: "ApplicationInput \<Rightarrow> AnalysisTier" where
  "selectTier input =
    (let jdChars = length (jobDescription input);
         resumeChars = length (resumeContent input);
         coverChars = length (coverLetterContent input);
         companyChars = length (companyInfo input);
         contextChars = length (additionalContext input);
         metricsChars = length (join '' '' (vault_strings (metricsVault input)));
         totalChars = jdChars + resumeChars + coverChars + companyChars + contextChars + metricsChars;
         estimatedTokens = estimateTokensFromChars totalChars;
         isSimpleCandidate = (jdChars < SIMPLE_DOC_CHAR_LIMIT \<and> resumeChars < SIMPLE_DOC_CHAR_LIMIT);
         isFastSimpleCandidate = (jdChars < 4500 \<and> resumeChars < 4500 \<and> estimatedTokens < 3200);
         isComplexByLength = (jdChars > COMPLEX_DOC_CHAR_LIMIT \<or> resumeChars > COMPLEX_DOC_CHAR_LIMIT
            \<or> totalChars > COMPLEX_TOTAL_CHAR_LIMIT \<or> estimatedTokens > COMPLEX_TOKEN_LIMIT);
         deepRequestedByText = rx_test DEEP_ANALYSIS_REGEX
            (additionalContext input @ [CHR 0x0A] @ companyInfo input @ [CHR 0x0A] @ jobDescription input)
     in if analysisMode input = Deep \<or> deepRequestedByText \<or> isComplexByLength then COMPLEX
        else if analysisMode input = Fast then (if isFastSimpleCandidate then SIMPLE else MEDIUM)
        else (if isSimpleCandidate then SIMPLE else MEDIUM))"

text \<open>
  A text holds the standalone word \<open>w\<close>: it occurs, in any mix of cases, with no word
  character (letter, digit or underscore) next to it on either side.
\<close>

definition has_standalone_word :: "string \<Rightarrow> string \<Rightarrow> bool" where
  "has_standalone_word w s =
     (\<exists>before u after. s = before @ u @ after \<and> toLowerCase u = w
        \<and> (before = [] \<or> \<not> is_word (last before)) \<and> (after = [] \<or> \<not> is_word (hd after)))"

text \<open>An input far below every length threshold, in fast mode, whose job description
  mentions deep learning.\<close>

definition deep_learning_input :: ApplicationInput where
  "deep_learning_input = \<lparr>
     jobDescription = ''We use deep learning.'',
     companyInfo = ''Small team.'',
     resumeContent = ''Engineer.'',
     coverLetterContent = ''Hello.'',
     portfolioLinks = [],
     additionalContext = [],
     analysisMode = Fast,
     privacyMode = False,
     metricsVault = []\<rparr>"

section \<open>privacyService.ts: the redactor\<close>

datatype PiiType = EMAIL | PHONE | STREET_ADDRESS | BIRTH_DATE | PERSONAL_ID

text \<open>The type as the string the source interpolates.\<close>

fun pii_type_name :: "PiiType \<Rightarrow> string" where
  "pii_type_name EMAIL = ''EMAIL''"
| "pii_type_name PHONE = ''PHONE''"
| "pii_type_name STREET_ADDRESS = ''STREET_ADDRESS''"
| "pii_type_name BIRTH_DATE = ''BIRTH_DATE''"
| "pii_type_name PERSONAL_ID = ''PERSONAL_ID''"

record PiiRedactionEntry =
  placeholder :: string
  original :: string
  type :: PiiType

text \<open>\<open>value.replace(/\s+/g, " ")\<close>: every maximal run of whitespace becomes one space.\<close>

function collapse_whitespace :: "string \<Rightarrow> string" where
  "collapse_whitespace [] = []"
| "collapse_whitespace (c # cs) =
     (if is_space c then CHR '' '' # collapse_whitespace (dropWhile is_space cs)
      else c # collapse_whitespace cs)"
  by pat_completeness auto
termination
  by (relation "measure length") (auto simp add: length_dropWhile_le less_Suc_eq_le)

definition normalizeForKey :: "string \<Rightarrow> string" where
  "normalizeForKey v = toLowerCase (trim (collapse_whitespace v))"

text \<open>\<open>replace(/\D/g, "")\<close> keeps the digits, \<open>replace(/[^A-Za-z0-9]/g, "")\<close> the letters and
  digits.\<close>

definition normalizePiiKey :: "PiiType \<Rightarrow> string \<Rightarrow> string" where
  "normalizePiiKey t v =
     (if t = PHONE then filter is_digit v
      else if t = EMAIL then normalizeForKey v
      else if t = PERSONAL_ID then toUpperCase (filter (\<lambda>c. is_alpha c \<or> is_digit c) v)
      else normalizeForKey v)"

text \<open>
  The closure state of \<open>createRedactor\<close>: the counters per type, and the two \<open>Map\<close>s in
  insertion order.
\<close>

record redactor =
  counters :: "PiiType \<Rightarrow> nat"
  keyToPlaceholder :: "(string \<times> string) list"
  placeholderToOriginal :: "(string \<times> string \<times> PiiType) list"

definition createRedactor :: redactor where
  "createRedactor = \<lparr>counters = (\<lambda>t. 0), keyToPlaceholder = [], placeholderToOriginal = []\<rparr>"

definition pii_key :: "PiiType \<Rightarrow> string \<Rightarrow> string" where
  "pii_key t normalized = pii_type_name t @ '':'' @ normalized"

definition pii_placeholder :: "PiiType \<Rightarrow> nat \<Rightarrow> string" where
  "pii_placeholder t n = ''[PII_'' @ pii_type_name t @ ''_'' @ string_of_nat n @ '']''"

text \<open>\<open>register(value, type)\<close>: the placeholder, and the state after the call. An existing
  placeholder is returned when it is truthy, that is, not the empty string.\<close>

definition register :: "string \<Rightarrow> PiiType \<Rightarrow> redactor \<Rightarrow> string \<times> redactor" where
  "register v t st =
    (let normalized = normalizePiiKey t v;
         key = pii_key t normalized;
         existing = map_of (keyToPlaceholder st) key
     in if existing \<noteq> None \<and> existing \<noteq> Some [] then (the existing, st)
        else
          (let n = counters st t + 1;
               p = pii_placeholder t n
           in (p, \<lparr>counters = (counters st)(t := n),
                   keyToPlaceholder = set_binding key p (keyToPlaceholder st),
                   placeholderToOriginal = set_binding p (v, t) (placeholderToOriginal st)\<rparr>)))"

definition entries :: "redactor \<Rightarrow> PiiRedactionEntry list" where
  "entries st =
     map (\<lambda>(p, v, t). \<lparr>placeholder = p, original = v, type = t\<rparr>) (placeholderToOriginal st)"

text \<open>The calls of \<open>register\<close> during one run, in the order in which they happen.\<close>

fun register_all :: "(string \<times> PiiType) list \<Rightarrow> redactor \<Rightarrow> string list \<times> redactor" where
  "register_all [] st = ([], st)"
| "register_all ((v, t) # calls) st =
     (let (p, st') = register v t st;
          (ps, st'') = register_all calls st'
      in (p # ps, st''))"

text \<open>Two detections are the same value when their types and normalized values agree.\<close>

definition same_pii :: "string \<times> PiiType \<Rightarrow> string \<times> PiiType \<Rightarrow> bool" where
  "same_pii a b = (snd a = snd b \<and> normalizePiiKey (snd a) (fst a) = normalizePiiKey (snd b) (fst b))"

text \<open>The normalized values of one type among some detections.\<close>

definition normalized_values :: "PiiType \<Rightarrow> (string \<times> PiiType) list \<Rightarrow> string set" where
  "normalized_values t calls = (\<lambda>(v, t'). normalizePiiKey t' v) ` {c \<in> set calls. snd c = t}"

text \<open>The key under which a detection is filed.\<close>

definition detection_key :: "string \<times> PiiType \<Rightarrow> string" where
  "detection_key c = pii_key (snd c) (normalizePiiKey (snd c) (fst c))"

text \<open>What holds between the detections registered so far, the placeholders returned for
  them and the state of the redactor.\<close>

definition redactor_inv :: "(string \<times> PiiType) list \<Rightarrow> string list \<Rightarrow> redactor \<Rightarrow> bool" where
  "redactor_inv calls ps st \<longleftrightarrow>
     length ps = length calls
   \<and> (\<forall>t. counters st t = card (normalized_values t calls))
   \<and> (\<forall>i<length calls. map_of (keyToPlaceholder st) (detection_key (calls ! i)) = Some (ps ! i))
   \<and> (\<forall>c. (\<forall>d\<in>set calls. \<not> same_pii d c) \<longrightarrow> map_of (keyToPlaceholder st) (detection_key c) = None)
   \<and> (\<forall>i<length calls. \<exists>n. 1 \<le> n \<and> n \<le> counters st (snd (calls ! i))
          \<and> ps ! i = pii_placeholder (snd (calls ! i)) n)
   \<and> (\<forall>i<length calls. \<forall>j<length calls. (ps ! i = ps ! j) = same_pii (calls ! i) (calls ! j))
   \<and> (\<forall>i<length calls. (\<forall>j<i. \<not> same_pii (calls ! j) (calls ! i)) \<longrightarrow>
          ps ! i = pii_placeholder (snd (calls ! i))
                     (Suc (card (normalized_values (snd (calls ! i)) (take i calls))))
          \<and> map_of (placeholderToOriginal st) (ps ! i) = Some (calls ! i))"

definition detections_example :: "(string \<times> PiiType) list" where
  "detections_example =
     [(''A@B.co'', EMAIL), (''555 123 4567'', PHONE), (''a@b.co'', EMAIL), (''c@d.org'', EMAIL),
      (''5551234567'', PHONE)]"

section \<open>metricsGuardService.ts\<close>

text \<open>\<open>/(?:\d{1,3}(?:,\d{3})+|\d+)(?:\.\d+)?/g\<close>\<close>

definition NUMBER_TOKEN_REGEX :: regex where
  "NUMBER_TOKEN_REGEX =
     Then (Alt (Then (Rep 1 (Some 3) (Atom is_digit))
                     (plus (Then (lit '','') (Rep 3 (Some 3) (Atom is_digit)))))
               (plus (Atom is_digit)))
          (opt (Then (lit ''.'') (plus (Atom is_digit))))"

text \<open>\<open>/^\s*\d+\.\s+/gm\<close>: the numbering of a list item at the start of a line.\<close>

definition LIST_NUMBERING_REGEX :: regex where
  "LIST_NUMBERING_REGEX =
     seq [LineStart, star (Atom is_space), plus (Atom is_digit), lit ''.'', plus (Atom is_space)]"

text \<open>
  \<open>Number.parseFloat\<close> reads the longest prefix that is a decimal literal and gives \<open>NaN\<close>
  when the text starts with none. The token expression yields digits, optionally a point and
  more digits (a sign, a leading point, an exponent and \<open>Infinity\<close> never reach
  \<open>parseFloat\<close> from it), so the prefix is the whole digits and the digits of the fraction.
\<close>

definition parse_numeral :: "string \<Rightarrow> (string \<times> string) option" where
  "parse_numeral s =
     (let whole = takeWhile is_digit s; after = dropWhile is_digit s
      in if whole = [] then None
         else (case after of
                 c # cs \<Rightarrow> if c = CHR ''.'' then Some (whole, takeWhile is_digit cs) else Some (whole, [])
               | [] \<Rightarrow> Some (whole, [])))"

text \<open>The number a string of digits denotes, and the digits of a number that is not negative.\<close>

definition int_of_digits :: "string \<Rightarrow> int" where
  "int_of_digits ds = foldl (\<lambda>a c. 10 * a + (int (code_unit c) - 48)) 0 ds"

function digits_of :: "int \<Rightarrow> string" where
  "digits_of n = (if n < 10 then [digit_char (nat n)]
     else digits_of (n div 10) @ [digit_char (nat (n mod 10))])"
  by pat_completeness auto
termination
  by (relation "measure nat") auto

declare digits_of.simps [simp del]

text \<open>
  A finite double that is not negative is \<open>m \<times> 2^e\<close> for a significand \<open>m < 2^53\<close> and
  an exponent \<open>-1074 \<le> e \<le> 971\<close>. It is kept as the pair \<open>(m, e)\<close> in its one normal form:
  \<open>2^52 \<le> m\<close> unless \<open>e = -1074\<close> (the subnormal numbers), and zero is \<open>(0, 0)\<close>.
\<close>

type_synonym binary64 = "int \<times> int"

function bit_length :: "int \<Rightarrow> nat" where
  "bit_length n = (if n \<le> 0 then 0 else Suc (bit_length (n div 2)))"
  by pat_completeness auto
termination
  by (relation "measure nat") auto

declare bit_length.simps [simp del]

text \<open>The quotient \<open>n / d\<close> rounded to the nearest integer, a tie to the even one.\<close>

definition round_half_even :: "int \<Rightarrow> int \<Rightarrow> int" where
  "round_half_even n d =
     (let q = n div d; r = n mod d
      in if 2 * r < d then q else if d < 2 * r then q + 1 else if even q then q else q + 1)"

text \<open>\<open>2^k \<le> n / d\<close>, for an exponent of either sign.\<close>

definition at_least_pow2 :: "int \<Rightarrow> int \<Rightarrow> int \<Rightarrow> bool" where
  "at_least_pow2 n d k = (if 0 \<le> k then d * 2 ^ nat k \<le> n else d \<le> n * 2 ^ nat (- k))"

text \<open>
  The double nearest to the fraction \<open>n / d\<close> (with \<open>0 \<le> n\<close> and \<open>0 < d\<close>), a tie going
  to the even significand, as IEEE 754 rounds and as \<open>parseFloat\<close> converts the value of a
  literal; \<open>None\<close> when the nearest double is \<open>Infinity\<close>. The binary logarithm of
  \<open>n / d\<close>, rounded down, is the difference \<open>b\<close> of the bit lengths or one less. (For a
  literal of more than 20 significant digits the language definition lets an engine round
  the literal to 20 digits first; the engines in use round the exact value, and so does the
  model.)
\<close>

definition to_double :: "int \<Rightarrow> int \<Rightarrow> binary64 option" where
  "to_double n d =
     (if n \<le> 0 then Some (0, 0)
      else
        (let b = int (bit_length n) - int (bit_length d);
             l = (if at_least_pow2 n d b then b else b - 1);
             e = max (l - 52) (- 1074);
             m = (if 0 \<le> e then round_half_even n (d * 2 ^ nat e)
                  else round_half_even (n * 2 ^ nat (- e)) d)
         in if m = 0 then Some (0, 0)
            else if m = 2 ^ 53 then (if 971 < e + 1 then None else Some (2 ^ 52, e + 1))
            else if 971 < e then None
            else Some (m, e)))"

definition parseFloat_numeral :: "string \<Rightarrow> string \<Rightarrow> binary64 option" where
  "parseFloat_numeral whole fraction = to_double (int_of_digits (whole @ fraction)) (10 ^ length fraction)"

text \<open>
  \<open>Number.prototype.toString\<close> looks for integers \<open>n\<close>, \<open>k\<close> and \<open>s\<close> with \<open>k \<ge> 1\<close>,
  \<open>10^(k-1) \<le> s < 10^k\<close> and \<open>s \<times> 10^(n-k)\<close> a decimal that converts to the
  number, with \<open>k\<close> as small as possible and, among the \<open>s\<close> that remain, the one whose decimal
  is closest to the number (the even one in a tie).

  \<open>decimal_exponent\<close> is the \<open>n\<close> with \<open>10^(n-1) \<le> x < 10^n\<close> for the fraction
  \<open>x = xn / xd\<close> (a double is above \<open>10^(-324)\<close>). With \<open>k\<close> digits the two candidates
  are the multiples of \<open>10^(n-k)\<close> on either side of \<open>x\<close>; when a multiple converts to
  the number, the closest such multiple is one of the two. The upper candidate may be
  \<open>10^k\<close>, the digit 1 at the next exponent. Seventeen digits always suffice.
\<close>

definition decimal_exponent :: "int \<Rightarrow> int \<Rightarrow> int" where
  "decimal_exponent xn xd =
     (if xd \<le> xn then int (length (digits_of (xn div xd)))
      else - int (length (takeWhile (\<lambda>i. xn * 10 ^ i < xd) [1..<400])))"

text \<open>The decimal \<open>s \<times> 10^p\<close> as a double.\<close>

definition decimal_to_double :: "int \<Rightarrow> int \<Rightarrow> binary64 option" where
  "decimal_to_double s p = (if 0 \<le> p then to_double (s * 10 ^ nat p) 1 else to_double s (10 ^ nat (- p)))"

text \<open>The candidates with \<open>k\<close> digits for the double \<open>x = xn / xd\<close> of decimal exponent
  \<open>n\<close>: those of the two neighbours that convert to \<open>x\<close>, the closer one first.\<close>

definition digit_candidates :: "binary64 \<Rightarrow> int \<Rightarrow> int \<Rightarrow> int \<Rightarrow> nat \<Rightarrow> int list" where
  "digit_candidates x xn xd n k =
     (let p = n - int k;
          num = (if 0 \<le> p then xn else xn * 10 ^ nat (- p));
          den = (if 0 \<le> p then xd * 10 ^ nat p else xd);
          lo = num div den;
          r = num mod den;
          lo_first = (2 * r < den \<or> (2 * r = den \<and> even lo));
          ordered = (if lo_first then [lo, lo + 1] else [lo + 1, lo])
      in filter (\<lambda>s. decimal_to_double s p = Some x) ordered)"

fun shortest_digits :: "binary64 \<Rightarrow> int \<Rightarrow> int \<Rightarrow> int \<Rightarrow> nat list \<Rightarrow> (int \<times> nat) option" where
  "shortest_digits x xn xd n [] = None"
| "shortest_digits x xn xd n (k # ks) =
     (case digit_candidates x xn xd n k of
        [] \<Rightarrow> shortest_digits x xn xd n ks
      | s # others \<Rightarrow> Some (s, k))"

definition is_zero_digit :: "char \<Rightarrow> bool" where
  "is_zero_digit c = (c = CHR ''0'')"

text \<open>The digits \<open>ds\<close> (without zeros at the end) and the position \<open>n\<close> of the point, printed
  in the four shapes of the language definition.\<close>

definition print_decimal :: "string \<Rightarrow> int \<Rightarrow> string" where
  "print_decimal ds n =
     (let k = int (length ds);
          e = n - 1;
          exponent = (if e < 0 then ''e-'' @ string_of_nat (nat (- e))
                      else ''e+'' @ string_of_nat (nat e))
      in if k \<le> n \<and> n \<le> 21 then ds @ replicate (nat (n - k)) CHR ''0''
         else if 0 < n \<and> n \<le> 21 then take (nat n) ds @ ''.'' @ drop (nat n) ds
         else if -6 < n \<and> n \<le> 0 then ''0.'' @ replicate (nat (- n)) CHR ''0'' @ ds
         else if k = 1 then ds @ exponent
         else take 1 ds @ ''.'' @ drop 1 ds @ exponent)"

definition number_to_string :: "binary64 \<Rightarrow> string" where
  "number_to_string x =
     (case x of (m, e) \<Rightarrow>
        if m = 0 then ''0''
        else
          (let xn = (if 0 \<le> e then m * 2 ^ nat e else m);
               xd = (if 0 \<le> e then 1 else 2 ^ nat (- e));
               n = decimal_exponent xn xd
           in case shortest_digits x xn xd n [1..<18] of
                None \<Rightarrow> []
              | Some (s, k) \<Rightarrow>
                  (let digits = digits_of s;
                       ds = rev (dropWhile is_zero_digit (rev digits))
                   in print_decimal ds (n + int (length digits) - int k))))"

text \<open>\<open>Number.isFinite\<close> fails on \<open>NaN\<close> (no numeral) and on \<open>Infinity\<close>.\<close>

definition normalizeNumberToken :: "string \<Rightarrow> string option" where
  "normalizeNumberToken v =
     (let compact = trim (filter (\<lambda>c. c \<noteq> CHR '','') v)
      in if compact = [] then None
         else (case parse_numeral compact of
                 None \<Rightarrow> None
               | Some (whole, fraction) \<Rightarrow>
                   (case parseFloat_numeral whole fraction of
                      None \<Rightarrow> None
                    | Some numeric \<Rightarrow> Some (number_to_string numeric))))"

text \<open>The loop over the matches: a token is skipped when it has no normal form (or an empty
  one) or when its normal form was seen before.\<close>

fun collect_tokens :: "string list \<Rightarrow> string list \<Rightarrow> string list" where
  "collect_tokens [] result = result"
| "collect_tokens (token # tokens) result =
     (case normalizeNumberToken token of
        None \<Rightarrow> collect_tokens tokens result
      | Some normalized \<Rightarrow>
          if normalized = [] \<or> normalized \<in> set result then collect_tokens tokens result
          else collect_tokens tokens (result @ [normalized]))"

definition extractNormalizedNumberTokens :: "string \<Rightarrow> string list" where
  "extractNormalizedNumberTokens v =
     (let cleaned = fst (rx_replace LIST_NUMBERING_REGEX (\<lambda>m cs st. ([], st)) None v ());
          matches = rx_match_all NUMBER_TOKEN_REGEX cleaned
      in collect_tokens matches [])"

definition getAllowedMetricNumbers :: "MetricsVault \<Rightarrow> string list" where
  "getAllowedMetricNumbers vault = extractNormalizedNumberTokens (join '' '' (vault_strings vault))"

definition findUnauthorizedNumbersInText :: "string \<Rightarrow> MetricsVault \<Rightarrow> string list" where
  "findUnauthorizedNumbersInText txt vault =
     (let allowed = getAllowedMetricNumbers vault;
          outputNumbers = extractNormalizedNumberTokens txt
      in filter (\<lambda>numberToken. numberToken \<notin> set allowed) outputNumbers)"

text \<open>The stage output of the rewrite.\<close>

record RewriteDocsResult =
  rewrite_optimizedResume :: "string option"
  rewrite_optimizedCoverLetter :: "string option"
  rewriteNotes :: "string option"

text \<open>\<open>value ?? ""\<close>.\<close>

definition or_empty :: "string option \<Rightarrow> string" where
  "or_empty v = (case v of None \<Rightarrow> [] | Some s \<Rightarrow> s)"

definition findUnauthorizedNumbersForRewrite :: "RewriteDocsResult \<Rightarrow> MetricsVault \<Rightarrow> string list" where
  "findUnauthorizedNumbersForRewrite rewrite vault =
     (let outputText = or_empty (rewrite_optimizedResume rewrite) @ [CHR 0x0A]
                       @ or_empty (rewrite_optimizedCoverLetter rewrite)
      in findUnauthorizedNumbersInText outputText vault)"

text \<open>The vault and the text of the metrics-authorization example.\<close>

definition example_vault :: MetricsVault where
  "example_vault = [(''projectImpact'', Some ''conversion +18%''), (''latencyReduction'', Some ''120 ms'')]"

definition example_text :: string where
  "example_text = ''Improved conversion by 18% and retention by 42%. Reduced latency by 120 ms.''"

section \<open>geminiService.ts: stage outputs and their normalization\<close>

text \<open>
  A gap item of the score stage has the shape of an \<open>Improvement\<close> of the result, and the
  final assembly copies it field by field, so the two share a record. The fields of the
  stage outputs that carry the name of a field of \<open>AnalysisResult\<close> are prefixed with
  their stage.
\<close>

type_synonym GapItem = Improvement

record ScoreMatchResult =
  baselineScore :: "number option"
  enhancedScore :: "number option"
  score_jobFitScore :: "number option"
  score_explanation :: "string option"
  score_overallFeedback :: "string option"
  gapAnalysis :: "GapItem list"
  score_portfolioAdvice :: "string option"
  score_recruiterNotes :: "string option"
  confidenceNotes :: "string list"

definition MAX_EVIDENCE_WORDS :: nat where
  "MAX_EVIDENCE_WORDS = 20"

definition asRecord :: "jsval \<Rightarrow> jsval" where
  "asRecord v = (case v of JObj kvs \<Rightarrow> JObj kvs | _ \<Rightarrow> JObj [])"

definition asArray :: "jsval \<Rightarrow> jsval list" where
  "asArray v = (case v of JArr xs \<Rightarrow> xs | _ \<Rightarrow> [])"

definition asNullableString :: "jsval \<Rightarrow> string option" where
  "asNullableString v =
     (case v of
        JStr s \<Rightarrow> (let trimmed = trim s in if length trimmed > 0 then Some trimmed else None)
      | _ \<Rightarrow> None)"

text \<open>\<open>.map(item => f(item)).filter(item => item !== null)\<close>.\<close>

definition asStringArray :: "jsval \<Rightarrow> string list" where
  "asStringArray v = concat (map (\<lambda>item. case asNullableString item of None \<Rightarrow> [] | Some s \<Rightarrow> [s])
                              (asArray v))"

text \<open>\<open>value.split(/\s+/).filter(Boolean)\<close>: the maximal runs of characters that are not
  whitespace.\<close>

function split_words :: "string \<Rightarrow> string list" where
  "split_words s =
     (case dropWhile is_space s of
        [] \<Rightarrow> []
      | c # cs \<Rightarrow> takeWhile (\<lambda>x. \<not> is_space x) (c # cs)
                 # split_words (dropWhile (\<lambda>x. \<not> is_space x) (c # cs)))"
  by pat_completeness auto
termination
proof (relation "measure length", goal_cases)
  case 1
  show ?case by simp
next
  case (2 s c cs)
  have "length (dropWhile (\<lambda>x. \<not> is_space x) cs) \<le> length cs"
    by (rule length_dropWhile_le)
  moreover have "length (c # cs) \<le> length s"
    using 2 length_dropWhile_le [of is_space s] by simp
  moreover have "\<not> is_space c"
    using 2 hd_dropWhile [of is_space s] by (metis list.sel(1) list.simps(3))
  ultimately show ?case by simp
qed

declare split_words.simps [simp del]

definition clampSnippetWords :: "string \<Rightarrow> string" where
  "clampSnippetWords v = join '' '' (take MAX_EVIDENCE_WORDS (split_words v))"

definition asSnippetArray :: "jsval \<Rightarrow> string list" where
  "asSnippetArray v = map clampSnippetWords (asStringArray v)"

definition asNullableNumber :: "jsval \<Rightarrow> number option" where
  "asNullableNumber v = (case v of JNum (Num x) \<Rightarrow> Some (Num x) | _ \<Rightarrow> None)"

definition normalizeGapCategory :: "jsval \<Rightarrow> Category" where
  "normalizeGapCategory v = (if v = JStr ''optional'' then Optional else Critical)"

definition normalizeEvidence :: "jsval \<Rightarrow> ImprovementEvidence" where
  "normalizeEvidence v =
     (let evidence = asRecord v
      in \<lparr>resumeQuotes = asSnippetArray (get_prop evidence ''resumeQuotes''),
          jdQuotes = asSnippetArray (get_prop evidence ''jdQuotes''),
          missingKeywords = asSnippetArray (get_prop evidence ''missingKeywords'')\<rparr>)"

definition normalizeForMatch :: "string \<Rightarrow> string" where
  "normalizeForMatch v = toLowerCase (trim (collapse_whitespace v))"

definition existsInSource :: "string \<Rightarrow> string \<Rightarrow> bool" where
  "existsInSource snippet source =
     (if snippet = [] \<or> source = [] then False
      else str_includes (normalizeForMatch source) (normalizeForMatch snippet))"

text \<open>The three source texts the score stage quotes from.\<close>

record SourceText =
  source_jobDescription :: string
  source_resumeContent :: string
  source_coverLetterContent :: string

definition enforceEvidenceFromSource :: "ScoreMatchResult \<Rightarrow> SourceText \<Rightarrow> ScoreMatchResult" where
  "enforceEvidenceFromSource scoring sourceText =
     (let resumeCorpus = source_resumeContent sourceText @ [CHR 0x0A] @ source_coverLetterContent sourceText
      in scoring\<lparr>gapAnalysis :=
           map (\<lambda>gap. gap\<lparr>evidence :=
                  \<lparr>resumeQuotes = filter (\<lambda>quote. existsInSource quote resumeCorpus)
                                    (resumeQuotes (evidence gap)),
                   jdQuotes = filter (\<lambda>quote. existsInSource quote (source_jobDescription sourceText))
                                (jdQuotes (evidence gap)),
                   missingKeywords = filter (\<lambda>keyword. existsInSource keyword (source_jobDescription sourceText))
                                (missingKeywords (evidence gap))\<rparr>\<rparr>)
               (gapAnalysis scoring)\<rparr>)"

definition normalizeScoreMatch :: "jsval \<Rightarrow> ScoreMatchResult" where
  "normalizeScoreMatch raw =
     (let root = asRecord raw
      in \<lparr>baselineScore = asNullableNumber (get_prop root ''baselineScore''),
          enhancedScore = asNullableNumber (get_prop root ''enhancedScore''),
          score_jobFitScore = asNullableNumber (get_prop root ''jobFitScore''),
          score_explanation = asNullableString (get_prop root ''explanation''),
          score_overallFeedback = asNullableString (get_prop root ''overallFeedback''),
          gapAnalysis = map (\<lambda>item.
              (let gap = asRecord item
               in \<lparr>point = asNullableString (get_prop gap ''point''),
                   category = normalizeGapCategory (get_prop gap ''category''),
                   impact = asNullableString (get_prop gap ''impact''),
                   evidence = normalizeEvidence (get_prop gap ''evidence'')\<rparr>))
            (asArray (get_prop root ''gapAnalysis'')),
          score_portfolioAdvice = asNullableString (get_prop root ''portfolioAdvice''),
          score_recruiterNotes = asNullableString (get_prop root ''recruiterNotes''),
          confidenceNotes = asStringArray (get_prop root ''confidenceNotes'')\<rparr>)"

definition normalizeRewriteDocs :: "jsval \<Rightarrow> RewriteDocsResult" where
  "normalizeRewriteDocs raw =
     (let root = asRecord raw
      in \<lparr>rewrite_optimizedResume = asNullableString (get_prop root ''optimizedResume''),
          rewrite_optimizedCoverLetter = asNullableString (get_prop root ''optimizedCoverLetter''),
          rewriteNotes = asNullableString (get_prop root ''rewriteNotes'')\<rparr>)"

text \<open>What the score stage returns for a raw model output: normalized, then filtered against
  the sources (the last two steps of \<open>scoreMatchWithClient\<close>).\<close>

definition score_stage_result :: "jsval \<Rightarrow> SourceText \<Rightarrow> ScoreMatchResult" where
  "score_stage_result raw sourceText = enforceEvidenceFromSource (normalizeScoreMatch raw) sourceText"

text \<open>Every snippet of an evidence record satisfies a property.\<close>

definition all_snippets :: "(string \<Rightarrow> bool) \<Rightarrow> ImprovementEvidence \<Rightarrow> bool" where
  "all_snippets P e = (list_all P (resumeQuotes e) \<and> list_all P (jdQuotes e) \<and> list_all P (missingKeywords e))"

text \<open>A snippet occurs in a source, case- and whitespace-insensitively, when its normal form
  is a substring of the normal form of the source.\<close>

definition occurs_in :: "string \<Rightarrow> string \<Rightarrow> bool" where
  "occurs_in snippet source = sublist (normalizeForMatch snippet) (normalizeForMatch source)"

text \<open>A word: not empty, and without whitespace.\<close>

definition proper_word :: "string \<Rightarrow> bool" where
  "proper_word w = (w \<noteq> [] \<and> list_all (\<lambda>c. \<not> is_space c) w)"

text \<open>A raw output of the score stage with one gap item, and the sources it is checked
  against.\<close>

definition evidence_example_output :: jsval where
  "evidence_example_output = JObj [(''gapAnalysis'', JArr [JObj [
     (''point'', JStr ''Show cloud experience.''),
     (''category'', JStr ''critical''),
     (''impact'', JNull),
     (''evidence'', JObj [
        (''resumeQuotes'', JArr [JStr ''built   ML pipelines'', JStr ''led a team of ten'']),
        (''jdQuotes'', JArr [JStr '' Required: Python, SQL, AWS '']),
        (''missingKeywords'', JArr [JStr ''AWS'', JStr ''Kubernetes'', JNum (Num 3)])])]])]"

definition evidence_example_source :: SourceText where
  "evidence_example_source = \<lparr>
     source_jobDescription = ''Required: Python, SQL, AWS.'',
     source_resumeContent = ''Built ML pipelines in Python and SQL.'',
     source_coverLetterContent = ''I ship.''\<rparr>"

section \<open>retrievalService.ts\<close>

datatype RetrievalSource =
  JobDescription | ResumeContent | CoverLetterContent | CompanyInfo | AdditionalContext

text \<open>The source as the property name the chunk id starts with, and the field it reads.\<close>

fun source_name :: "RetrievalSource \<Rightarrow> string" where
  "source_name JobDescription = ''jobDescription''"
| "source_name ResumeContent = ''resumeContent''"
| "source_name CoverLetterContent = ''coverLetterContent''"
| "source_name CompanyInfo = ''companyInfo''"
| "source_name AdditionalContext = ''additionalContext''"

fun source_field :: "RetrievalSource \<Rightarrow> ApplicationInput \<Rightarrow> string" where
  "source_field JobDescription input = jobDescription input"
| "source_field ResumeContent input = resumeContent input"
| "source_field CoverLetterContent input = coverLetterContent input"
| "source_field CompanyInfo input = companyInfo input"
| "source_field AdditionalContext input = additionalContext input"

record RetrievalChunk =
  chunk_id :: string
  chunk_source :: RetrievalSource
  chunk_text :: string
  chunk_start :: nat
  chunk_end :: nat
  tokenEstimate :: nat

fun SOURCE_PRIORITY :: "RetrievalSource \<Rightarrow> nat" where
  "SOURCE_PRIORITY JobDescription = 5"
| "SOURCE_PRIORITY ResumeContent = 4"
| "SOURCE_PRIORITY CoverLetterContent = 3"
| "SOURCE_PRIORITY CompanyInfo = 2"
| "SOURCE_PRIORITY AdditionalContext = 1"

definition DEFAULT_MAX_CHARS :: nat where "DEFAULT_MAX_CHARS = 900"
definition DEFAULT_OVERLAP :: nat where "DEFAULT_OVERLAP = 140"
definition MIN_SPLIT_POINT :: nat where "MIN_SPLIT_POINT = 220"

text \<open>\<open>value.replace(/\r\n/g, "\n")\<close>\<close>

fun crlf_to_lf :: "string \<Rightarrow> string" where
  "crlf_to_lf [] = []"
| "crlf_to_lf [c] = [c]"
| "crlf_to_lf (c # d # cs) =
     (if c = CHR 0x0D \<and> d = CHR 0x0A then CHR 0x0A # crlf_to_lf cs else c # crlf_to_lf (d # cs))"

definition normalizeText :: "string \<Rightarrow> string" where
  "normalizeText v = trim (collapse_whitespace (crlf_to_lf v))"

text \<open>\<open>Math.max(1, Math.ceil(value.length / 4))\<close>\<close>

definition estimateTokens :: "string \<Rightarrow> nat" where
  "estimateTokens v = max 1 ((length v + (APPROX_CHARS_PER_TOKEN - 1)) div APPROX_CHARS_PER_TOKEN)"

text \<open>\<open>text.slice(start, end)\<close> for \<open>0 \<le> start\<close> and \<open>0 \<le> end\<close>.\<close>

definition slice :: "string \<Rightarrow> nat \<Rightarrow> nat \<Rightarrow> string" where
  "slice s from to = take (to - from) (drop from s)"

text \<open>\<open>String.prototype.lastIndexOf\<close>: the last position at which the pattern starts, or -1.\<close>

definition lastIndexOf :: "string \<Rightarrow> string \<Rightarrow> int" where
  "lastIndexOf s pat =
     (case filter (\<lambda>i. prefix pat (drop i s)) (rev [0..<Suc (length s)]) of
        [] \<Rightarrow> -1
      | i # others \<Rightarrow> int i)"

definition findSplitPoint :: "string \<Rightarrow> nat \<Rightarrow> nat \<Rightarrow> nat" where
  "findSplitPoint s start end' =
     (let candidate = slice s start end';
          punctuation = max (lastIndexOf candidate ''. '')
                          (max (lastIndexOf candidate ''! '') (lastIndexOf candidate ''? ''));
          newline = lastIndexOf candidate [CHR 0x0A];
          whitespace = lastIndexOf candidate '' ''
      in if punctuation \<ge> int MIN_SPLIT_POINT then start + nat punctuation + 1
         else if newline \<ge> int MIN_SPLIT_POINT then start + nat newline + 1
         else if whitespace \<ge> int MIN_SPLIT_POINT then start + nat whitespace
         else end')"

definition make_chunk_id :: "RetrievalSource \<Rightarrow> nat \<Rightarrow> nat \<Rightarrow> nat \<Rightarrow> string" where
  "make_chunk_id source index start end' =
     source_name source @ '':'' @ string_of_nat index @ '':'' @ string_of_nat start @ ''-''
     @ string_of_nat end'"

text \<open>
  The loop of \<open>chunkTextForRetrieval\<close> over the normalized text, from a start position and
  a chunk index. \<open>Math.max(end - overlap, start + 1)\<close> is at least \<open>start + 1\<close>, so the
  truncated subtraction of the naturals gives the same next start.
\<close>

function chunk_loop ::
  "RetrievalSource \<Rightarrow> string \<Rightarrow> nat \<Rightarrow> nat \<Rightarrow> nat \<Rightarrow> nat \<Rightarrow> RetrievalChunk list"
where
  "chunk_loop source normalized maxChars overlap start index =
    (if start < length normalized then
       (let hardEnd = min (start + maxChars) (length normalized);
            splitPoint = (if hardEnd < length normalized then findSplitPoint normalized start hardEnd
                          else hardEnd);
            end' = max splitPoint (min (start + MIN_SPLIT_POINT) (length normalized));
            chunkText = trim (slice normalized start end');
            pushed = (if length chunkText > 0
                      then [\<lparr>chunk_id = make_chunk_id source index start end',
                             chunk_source = source, chunk_text = chunkText,
                             chunk_start = start, chunk_end = end',
                             tokenEstimate = estimateTokens chunkText\<rparr>]
                      else []);
            index' = (if length chunkText > 0 then index + 1 else index)
        in if end' \<ge> length normalized then pushed
           else pushed @ chunk_loop source normalized maxChars overlap
                           (max (end' - overlap) (start + 1)) index')
     else [])"
  by pat_completeness auto
termination
proof (relation "measure (\<lambda>(source, normalized, maxChars, overlap, start, index). length normalized - start)",
    goal_cases)
  case 1
  show ?case by simp
next
  case (2 source normalized maxChars overlap start index)
  from 2(1) have "length normalized - max (end' - overlap) (start + 1) < length normalized - start"
    for end' :: nat
    by arith
  then show ?case by simp
qed

declare chunk_loop.simps [simp del]

definition chunkTextForRetrieval :: "RetrievalSource \<Rightarrow> string \<Rightarrow> nat \<Rightarrow> nat \<Rightarrow> RetrievalChunk list" where
  "chunkTextForRetrieval source txt maxChars overlap =
     (let normalized = normalizeText txt
      in if normalized = [] then [] else chunk_loop source normalized maxChars overlap 0 0)"

definition buildRetrievalChunks :: "ApplicationInput \<Rightarrow> nat \<Rightarrow> nat \<Rightarrow> RetrievalChunk list" where
  "buildRetrievalChunks input maxChars overlap =
     concat (map (\<lambda>source. chunkTextForRetrieval source (source_field source input) maxChars overlap)
       [JobDescription, ResumeContent, CoverLetterContent, CompanyInfo, AdditionalContext])"

text \<open>The score is a source priority plus a multiple of \<open>1/200\<close> of at most 1. Scores this
  coarse are compared by the doubles of the source exactly as the rationals compare.\<close>

definition scoreChunk :: "RetrievalChunk \<Rightarrow> rat" where
  "scoreChunk chunk =
     (let sourceScore = of_nat (SOURCE_PRIORITY (chunk_source chunk));
          lengthScore = min (of_nat (tokenEstimate chunk) / 200) 1
      in sourceScore + lengthScore)"

text \<open>
  The comparator of the sort. \<open>String.prototype.localeCompare\<close> is the collation of the
  host, so it is a parameter.
\<close>

definition compare_chunks :: "(string \<Rightarrow> string \<Rightarrow> int) \<Rightarrow> RetrievalChunk \<Rightarrow> RetrievalChunk \<Rightarrow> rat" where
  "compare_chunks localeCompare left right =
     (let scoreDelta = scoreChunk right - scoreChunk left
      in if scoreDelta \<noteq> 0 then scoreDelta
         else of_int (localeCompare (chunk_id left) (chunk_id right)))"

text \<open>
  \<open>Array.prototype.sort\<close> is stable. It is modelled as the insertion sort that puts each
  element behind the elements it does not precede; for a comparator that orders the
  elements consistently every stable sort returns this array.
\<close>

fun insert_by :: "('a \<Rightarrow> 'a \<Rightarrow> rat) \<Rightarrow> 'a \<Rightarrow> 'a list \<Rightarrow> 'a list" where
  "insert_by cmp x [] = [x]"
| "insert_by cmp x (y # ys) = (if cmp x y < 0 then x # y # ys else y # insert_by cmp x ys)"

definition sort_by :: "('a \<Rightarrow> 'a \<Rightarrow> rat) \<Rightarrow> 'a list \<Rightarrow> 'a list" where
  "sort_by cmp xs = foldl (\<lambda>sorted x. insert_by cmp x sorted) [] xs"

definition selectRetrievalChunks ::
  "(string \<Rightarrow> string \<Rightarrow> int) \<Rightarrow> ApplicationInput \<Rightarrow> nat \<Rightarrow> RetrievalChunk list" where
  "selectRetrievalChunks localeCompare input limit =
     (let chunks = buildRetrievalChunks input DEFAULT_MAX_CHARS DEFAULT_OVERLAP
      in take limit (sort_by (compare_chunks localeCompare) chunks))"

definition selectRetrievalChunkIds ::
  "(string \<Rightarrow> string \<Rightarrow> int) \<Rightarrow> ApplicationInput \<Rightarrow> nat \<Rightarrow> string list" where
  "selectRetrievalChunkIds localeCompare input limit =
     map chunk_id (selectRetrievalChunks localeCompare input limit)"

definition buildRetrievalReason :: "RetrievalChunk \<Rightarrow> string" where
  "buildRetrievalReason chunk =
     ''Prioritized '' @ source_name (chunk_source chunk) @ '' chunk (sourcePriority=''
     @ string_of_nat (SOURCE_PRIORITY (chunk_source chunk)) @ '', tokenEstimate=''
     @ string_of_nat (tokenEstimate chunk) @ '').''"

definition selectRetrievalTrace ::
  "(string \<Rightarrow> string \<Rightarrow> int) \<Rightarrow> ApplicationInput \<Rightarrow> nat \<Rightarrow> RetrievalTraceEntry list" where
  "selectRetrievalTrace localeCompare input limit =
     map (\<lambda>chunk. \<lparr>chunkId = chunk_id chunk, reason = buildRetrievalReason chunk\<rparr>)
       (selectRetrievalChunks localeCompare input limit)"

text \<open>Two texts differ only in their whitespace (leading, trailing or between words) when
  they have the same words in the same order.\<close>

definition same_words :: "string \<Rightarrow> string \<Rightarrow> bool" where
  "same_words a b = (split_words a = split_words b)"

text \<open>A collation for examples: code unit by code unit.\<close>

fun compare_code_units :: "string \<Rightarrow> string \<Rightarrow> int" where
  "compare_code_units [] [] = 0"
| "compare_code_units [] (y # ys) = -1"
| "compare_code_units (x # xs) [] = 1"
| "compare_code_units (x # xs) (y # ys) =
     (if code_unit x < code_unit y then -1 else if code_unit y < code_unit x then 1
      else compare_code_units xs ys)"

text \<open>The input of the determinism test, and the same input with whitespace around and inside
  the resume.\<close>

definition retrieval_example :: ApplicationInput where
  "retrieval_example = \<lparr>
     jobDescription = ''We need a Senior ML Engineer with Python, SQL, and AWS. Build production pipelines and improve latency.'',
     companyInfo = ''Berlin, Germany. Team focused on experimentation and reliable delivery.'',
     resumeContent = ''Senior Data Scientist at ExampleCorp. Built ML pipelines in Python and SQL on AWS. Reduced latency by 120ms.'',
     coverLetterContent = ''I align product and ML teams and ship measurable outcomes.'',
     portfolioLinks = ''https://github.com/example'',
     additionalContext = ''deep analysis not requested'',
     analysisMode = Balanced,
     privacyMode = True,
     metricsVault = [(''latencyReduction'', Some ''120ms''), (''projectImpact'', Some ''18%'')]\<rparr>"

definition retrieval_example_spaced :: ApplicationInput where
  "retrieval_example_spaced = retrieval_example\<lparr>
     resumeContent := ''  Senior Data   Scientist at ExampleCorp. Built ML pipelines in Python and SQL on AWS. Reduced latency by 120ms.'' @ [CHR 0x0D, CHR 0x0A, CHR 0x0A]\<rparr>"

section \<open>Proofs: retry with backoff\<close>

lemma withRetry_loop_last:
  "withRetry_loop name operation m m lastError slept =
    (case operation m of
       Returns v \<Rightarrow> \<lparr>outcome = Inr v, attempts = m, sleeps = slept, notified = length slept\<rparr>
     | Throws e \<Rightarrow> \<lparr>outcome = Inl e, attempts = m, sleeps = slept, notified = length slept\<rparr>)"
  by (subst withRetry_loop.simps) (simp split: attempt.splits)

lemma withRetry_loop_step:
  "attempt < m \<Longrightarrow> withRetry_loop name operation m attempt lastError slept =
    (case operation attempt of
       Returns v \<Rightarrow> \<lparr>outcome = Inr v, attempts = attempt, sleeps = slept, notified = length slept\<rparr>
     | Throws e \<Rightarrow>
         if isTransientError e
         then withRetry_loop name operation m (Suc attempt) (Some e)
                (slept @ [BASE_BACKOFF_MS * 2 ^ (attempt - 1)])
         else \<lparr>outcome = Inl e, attempts = attempt, sleeps = slept, notified = length slept\<rparr>)"
  by (subst withRetry_loop.simps) (simp split: attempt.splits)

text \<open>The run with the default limit, attempt by attempt.\<close>

lemma withRetry_3:
  "withRetry name operation MAX_RETRY_ATTEMPTS =
    (case operation 1 of
       Returns v \<Rightarrow> \<lparr>outcome = Inr v, attempts = 1, sleeps = [], notified = 0\<rparr>
     | Throws e1 \<Rightarrow>
        if \<not> isTransientError e1 then \<lparr>outcome = Inl e1, attempts = 1, sleeps = [], notified = 0\<rparr>
        else (case operation 2 of
           Returns v \<Rightarrow> \<lparr>outcome = Inr v, attempts = 2, sleeps = [400], notified = 1\<rparr>
         | Throws e2 \<Rightarrow>
            if \<not> isTransientError e2 then \<lparr>outcome = Inl e2, attempts = 2, sleeps = [400], notified = 1\<rparr>
            else (case operation 3 of
               Returns v \<Rightarrow> \<lparr>outcome = Inr v, attempts = 3, sleeps = [400, 800], notified = 2\<rparr>
             | Throws e3 \<Rightarrow> \<lparr>outcome = Inl e3, attempts = 3, sleeps = [400, 800], notified = 2\<rparr>)))"
proof -
  have three: "MAX_RETRY_ATTEMPTS = Suc (Suc (Suc 0))" by (simp add: MAX_RETRY_ATTEMPTS_def)
  have two: "(2::nat) = Suc (Suc 0)" and one: "(3::nat) = Suc (Suc (Suc 0))" by simp_all
  show ?thesis
    unfolding withRetry_def three
    by (simp add: withRetry_loop_step withRetry_loop_last BASE_BACKOFF_MS_def two one
        split: attempt.splits)
qed

lemma withRetry_calls_bounds:
  "1 \<le> attempts (withRetry name operation MAX_RETRY_ATTEMPTS)
   \<and> attempts (withRetry name operation MAX_RETRY_ATTEMPTS) \<le> 3"
  by (simp add: withRetry_3 split: attempt.splits)

lemma withRetry_sleeps:
  "sleeps (withRetry name operation MAX_RETRY_ATTEMPTS)
     = take (attempts (withRetry name operation MAX_RETRY_ATTEMPTS) - 1) [400, 800]
   \<and> notified (withRetry name operation MAX_RETRY_ATTEMPTS)
     = attempts (withRetry name operation MAX_RETRY_ATTEMPTS) - 1"
  by (simp add: withRetry_3 split: attempt.splits)

lemma withRetry_outcome:
  "outcome (withRetry name operation MAX_RETRY_ATTEMPTS)
     = (case operation (attempts (withRetry name operation MAX_RETRY_ATTEMPTS)) of
          Returns v \<Rightarrow> Inr v | Throws e \<Rightarrow> Inl e)"
  by (simp add: withRetry_3 split: attempt.splits)

lemma withRetry_earlier_transient:
  assumes "1 \<le> k" and "k < attempts (withRetry name operation MAX_RETRY_ATTEMPTS)"
  shows "\<exists>e. operation k = Throws e \<and> isTransientError e"
proof -
  have "k = 1 \<or> k = 2"
    using assms withRetry_calls_bounds [of name operation] by arith
  then show ?thesis
    using assms(2) by (auto simp add: withRetry_3 split: attempt.splits if_splits)
qed

lemma withRetry_stops_at_fatal:
  assumes "1 \<le> k" and "k \<le> 3" and "operation k = Throws e" and "\<not> isTransientError e"
    and "\<forall>j. 1 \<le> j \<and> j < k \<longrightarrow> (\<exists>e'. operation j = Throws e' \<and> isTransientError e')"
  shows "withRetry name operation MAX_RETRY_ATTEMPTS
         = \<lparr>outcome = Inl e, attempts = k, sleeps = take (k - 1) [400, 800], notified = k - 1\<rparr>"
proof -
  have k: "k = 1 \<or> k = 2 \<or> k = 3" using assms(1,2) by arith
  have before: "\<exists>e'. operation j = Throws e' \<and> isTransientError e'" if "1 \<le> j" "j < k" for j
    using assms(5) that by blast
  show ?thesis
    using k
  proof (elim disjE)
    assume "k = 1"
    then show ?thesis using assms(3,4) by (simp add: withRetry_3)
  next
    assume k2: "k = 2"
    from before [of 1] k2 obtain e1 where "operation 1 = Throws e1" "isTransientError e1" by auto
    then show ?thesis using assms(3,4) k2 by (simp add: withRetry_3)
  next
    assume k3: "k = 3"
    from before [of 1] k3 obtain e1 where "operation 1 = Throws e1" "isTransientError e1" by auto
    moreover from before [of 2] k3 obtain e2 where "operation 2 = Throws e2" "isTransientError e2"
      by auto
    ultimately show ?thesis using assms(3,4) k3 by (simp add: withRetry_3)
  qed
qed

text \<open>What makes an error transient: a number as \<open>status\<close> (or, when \<open>status\<close> is no
  number, as \<open>code\<close>) from the list, or one of the heuristic words in the lowered message.\<close>

lemma isTransientError_cases:
  assumes "isTransientError e"
  shows "(\<exists>n \<in> set TRANSIENT_STATUS_CODES. status e = JNum n \<or> code e = JNum n)
       \<or> (\<exists>w \<in> set [''timeout'', ''timed out'', ''rate limit'', ''too many requests'', ''temporar'',
                      ''network'', ''econnreset'', ''503'', ''502'', ''500'', ''429''].
            str_includes (toLowerCase (case message e of Some m \<Rightarrow> m | None \<Rightarrow> shown e)) w)"
proof (cases "\<exists>n \<in> set TRANSIENT_STATUS_CODES. status e = JNum n \<or> code e = JNum n")
  case True
  then show ?thesis by blast
next
  case False
  then have "\<not> (case (case status e of JNum n \<Rightarrow> Some n
                      | _ \<Rightarrow> (case code e of JNum n \<Rightarrow> Some n | _ \<Rightarrow> None)) of
                 Some n \<Rightarrow> n \<in> set TRANSIENT_STATUS_CODES | None \<Rightarrow> False)"
    by (auto split: jsval.splits option.splits)
  with assms show ?thesis
    by (simp add: isTransientError_def Let_def)
qed

text \<open>
  C5. With the default limit \<open>withRetry\<close> attempts the operation at least once and at most three
  times. It sleeps 400 ms before the second call and 800 ms before the third and at no
  other time. Every call before the last one failed with a transient error, and a transient
  error has a listed numeric status or code, or a heuristic word in its message. The run
  ends with what the last call did. An error that is not transient, at whichever attempt it
  comes after transient failures, ends the run at once: it is rethrown as it is, no further
  call is made, and no delay is slept after it.
\<close>

theorem withRetry_policy:
  fixes operation :: "nat \<Rightarrow> 'a attempt"
  shows
  "(let run = withRetry name operation MAX_RETRY_ATTEMPTS in
      1 \<le> attempts run \<and> attempts run \<le> 3
    \<and> sleeps run = take (attempts run - 1) [400, 800]
    \<and> notified run = attempts run - 1
    \<and> outcome run = (case operation (attempts run) of Returns v \<Rightarrow> Inr v | Throws e \<Rightarrow> Inl e)
    \<and> (\<forall>k. 1 \<le> k \<and> k < attempts run \<longrightarrow>
          (\<exists>e. operation k = Throws e \<and> isTransientError e
             \<and> ((\<exists>n \<in> set TRANSIENT_STATUS_CODES. status e = JNum n \<or> code e = JNum n)
                \<or> (\<exists>w \<in> set [''timeout'', ''timed out'', ''rate limit'', ''too many requests'',
                      ''temporar'', ''network'', ''econnreset'', ''503'', ''502'', ''500'', ''429''].
                     str_includes (toLowerCase (case message e of Some m \<Rightarrow> m | None \<Rightarrow> shown e)) w))))
    \<and> (\<forall>k e. 1 \<le> k \<and> k \<le> 3 \<and> operation k = Throws e \<and> \<not> isTransientError e
          \<and> (\<forall>j. 1 \<le> j \<and> j < k \<longrightarrow> (\<exists>e'. operation j = Throws e' \<and> isTransientError e'))
          \<longrightarrow> run = \<lparr>outcome = Inl e, attempts = k, sleeps = take (k - 1) [400, 800],
                      notified = k - 1\<rparr>))"
proof -
  have earlier: "\<exists>e. operation k = Throws e \<and> isTransientError e
      \<and> ((\<exists>n \<in> set TRANSIENT_STATUS_CODES. status e = JNum n \<or> code e = JNum n)
         \<or> (\<exists>w \<in> set [''timeout'', ''timed out'', ''rate limit'', ''too many requests'',
               ''temporar'', ''network'', ''econnreset'', ''503'', ''502'', ''500'', ''429''].
              str_includes (toLowerCase (case message e of Some m \<Rightarrow> m | None \<Rightarrow> shown e)) w))"
    if "1 \<le> k" "k < attempts (withRetry name operation MAX_RETRY_ATTEMPTS)" for k
  proof -
    from withRetry_earlier_transient [OF that] obtain e
      where e: "operation k = Throws e" "isTransientError e" by blast
    from isTransientError_cases [OF e(2)] e show ?thesis by blast
  qed
  show ?thesis
    unfolding Let_def
    using withRetry_calls_bounds [of name operation] withRetry_sleeps [of name operation]
      withRetry_outcome [of name operation] earlier
      withRetry_stops_at_fatal [of _ operation _ name]
    by blast
qed

text \<open>A script of three attempts: a 503, then a time-out reported only in the message, then a
  value.\<close>

definition flaky_operation :: "nat \<Rightarrow> string attempt" where
  "flaky_operation k =
    (if k = 1 then Throws \<lparr>status = JNum (Num 503), code = JUndefined,
                           message = Some ''Service Unavailable'', shown = ''Error: Service Unavailable''\<rparr>
     else if k = 2 then Throws \<lparr>status = JUndefined, code = JUndefined,
                           message = Some ''Request timed out'', shown = ''Error: Request timed out''\<rparr>
     else Returns ''{}'')"

theorem withRetry_policy_witness:
  "attempts (withRetry ''rewriteDocs'' flaky_operation MAX_RETRY_ATTEMPTS) = 3
   \<and> sleeps (withRetry ''rewriteDocs'' flaky_operation MAX_RETRY_ATTEMPTS) = [400, 800]
   \<and> outcome (withRetry ''rewriteDocs'' flaky_operation MAX_RETRY_ATTEMPTS) = Inr ''{}''
   \<and> (\<exists>e. flaky_operation 2 = Throws e \<and> isTransientError e)"
proof -
  have t2: "isTransientError \<lparr>status = JUndefined, code = JUndefined,
              message = Some ''Request timed out'', shown = ''Error: Request timed out''\<rparr>"
    by code_simp
  have t1: "isTransientError \<lparr>status = JNum (Num 503), code = JUndefined,
              message = Some ''Service Unavailable'', shown = ''Error: Service Unavailable''\<rparr>"
    by code_simp
  have c: "attempts (withRetry ''rewriteDocs'' flaky_operation MAX_RETRY_ATTEMPTS) = 3"
    by (simp add: withRetry_3 flaky_operation_def t1 t2)
  from withRetry_policy [of "''rewriteDocs''" flaky_operation] c
  show ?thesis
    by (simp add: Let_def flaky_operation_def t2)
qed

section \<open>Proofs: tier selection\<close>

lemma rx_search_at:
  "rx_match r \<lparr>prev = (if before = [] then p else Some (last before)), rest = s, caps = []\<rparr> \<noteq> []
   \<Longrightarrow> rx_search r p (before @ s) \<noteq> None"
proof (induction before arbitrary: p)
  case Nil
  then show ?case by (cases s) (auto split: list.splits)
next
  case (Cons x xs)
  have "rx_search r (Some x) (xs @ s) \<noteq> None"
    using Cons.prems by (intro Cons.IH) (auto split: if_splits)
  then show ?case by (auto split: list.splits option.splits)
qed

lemma code_unit_lower_char:
  "code_unit (lower_char c) =
     (if is_upper c \<or> (192 \<le> code_unit c \<and> code_unit c \<le> 222 \<and> code_unit c \<noteq> 215)
      then code_unit c + 32 else code_unit c)"
  by (auto simp add: lower_char_def code_unit_def is_upper_def)

lemma lower_char_letter:
  assumes "lower_char c = x" and "is_lower x"
  shows "is_word c"
proof -
  have "code_unit (lower_char c) = code_unit x" using assms(1) by simp
  then show ?thesis
    using assms(2)
    by (auto simp add: code_unit_lower_char is_word_def is_alpha_def is_lower_def is_upper_def
        split: if_splits)
qed

lemma is_lower_deep: "is_lower CHR ''d''" "is_lower CHR ''e''" "is_lower CHR ''p''"
  by (simp_all add: is_lower_def code_unit_def)

lemma rx_match_Atom_Cons:
  "p x \<Longrightarrow> rx_match (Atom p) \<lparr>prev = q, rest = x # xs, caps = cs\<rparr>
     = [\<lparr>prev = Some x, rest = xs, caps = cs\<rparr>]"
  by simp

lemma rx_match_Then_single:
  "rx_match a c = [c'] \<Longrightarrow> rx_match (Then a b) c = rx_match b c'"
  by simp

lemma rx_match_WordBoundary_at:
  "at_word_boundary c \<Longrightarrow> rx_match WordBoundary c = [c]"
  by simp

lemma fold_case_lower: "lower_char c = x \<Longrightarrow> fold_case (\<lambda>c. c = x) c"
  by (simp add: fold_case_def)

lemma lit_i_deep_matches:
  assumes "lower_char c1 = CHR ''d''" "lower_char c2 = CHR ''e''" "lower_char c3 = CHR ''e''"
    "lower_char c4 = CHR ''p''"
  shows "rx_match (lit_i ''deep'') \<lparr>prev = q, rest = c1 # c2 # c3 # c4 # after, caps = []\<rparr>
         = [\<lparr>prev = Some c4, rest = after, caps = []\<rparr>]"
  unfolding lit_i_def using assms [THEN fold_case_lower]
  by (simp only: list.map seq.simps rx_match_Then_single [OF rx_match_Atom_Cons] rx_match_Atom_Cons)

lemma deep_matches_here:
  assumes u: "toLowerCase u = ''deep''"
    and b: "before = [] \<or> \<not> is_word (last before)"
    and a: "after = [] \<or> \<not> is_word (hd after)"
  shows "rx_match DEEP_ANALYSIS_REGEX
           \<lparr>prev = (if before = [] then None else Some (last before)), rest = u @ after, caps = []\<rparr>
         \<noteq> []"
proof -
  from u obtain c1 c2 c3 c4 where u4: "u = [c1, c2, c3, c4]"
    and l: "lower_char c1 = CHR ''d''" "lower_char c2 = CHR ''e''" "lower_char c3 = CHR ''e''"
      "lower_char c4 = CHR ''p''"
    by (auto simp add: toLowerCase_def map_eq_Cons_conv)
  have w1: "is_word c1" and w4: "is_word c4"
    using l lower_char_letter is_lower_deep by blast+
  have start: "at_word_boundary
      \<lparr>prev = (if before = [] then None else Some (last before)), rest = c1 # c2 # c3 # c4 # after, caps = []\<rparr>"
    using b w1 by (auto simp add: at_word_boundary_def)
  have stop: "at_word_boundary \<lparr>prev = Some c4, rest = after, caps = []\<rparr>"
    using a w4 by (cases after) (auto simp add: at_word_boundary_def)
  have "rx_match (seq [WordBoundary, lit_i ''deep'', WordBoundary])
          \<lparr>prev = (if before = [] then None else Some (last before)), rest = u @ after, caps = []\<rparr>
        = [\<lparr>prev = Some c4, rest = after, caps = []\<rparr>]"
    unfolding u4 append_Cons append_Nil seq.simps
    by (simp only: rx_match_Then_single [OF rx_match_WordBoundary_at [OF start]]
        rx_match_Then_single [OF lit_i_deep_matches [OF l]] rx_match_WordBoundary_at [OF stop])
  then show ?thesis
    by (simp add: DEEP_ANALYSIS_REGEX_def)
qed

lemma deep_test:
  assumes "has_standalone_word ''deep'' s"
  shows "rx_test DEEP_ANALYSIS_REGEX s"
proof -
  from assms obtain before u after where s: "s = before @ u @ after" and u: "toLowerCase u = ''deep''"
    and b: "before = [] \<or> \<not> is_word (last before)" and a: "after = [] \<or> \<not> is_word (hd after)"
    unfolding has_standalone_word_def by blast
  have "rx_search DEEP_ANALYSIS_REGEX None (before @ (u @ after)) \<noteq> None"
    using deep_matches_here [OF u b a] by (intro rx_search_at) simp
  then show ?thesis by (auto simp add: rx_test_def s split: option.splits)
qed

lemma not_word_LF: "\<not> is_word (CHR 0x0A)"
  by (simp add: is_word_def is_alpha_def is_upper_def is_lower_def is_digit_def code_unit_def)

lemma standalone_word_embedded:
  assumes "has_standalone_word w s"
    and l: "left = [] \<or> \<not> is_word (last left)" and r: "right = [] \<or> \<not> is_word (hd right)"
  shows "has_standalone_word w (left @ s @ right)"
proof -
  from assms(1) obtain before u after where s: "s = before @ u @ after" and u: "toLowerCase u = w"
    and b: "before = [] \<or> \<not> is_word (last before)" and a: "after = [] \<or> \<not> is_word (hd after)"
    unfolding has_standalone_word_def by blast
  have "left @ s @ right = (left @ before) @ u @ (after @ right)" by (simp add: s)
  moreover have "left @ before = [] \<or> \<not> is_word (last (left @ before))" using l b by (auto simp add: last_append)
  moreover have "after @ right = [] \<or> \<not> is_word (hd (after @ right))" using r a by (auto simp add: hd_append)
  ultimately show ?thesis unfolding has_standalone_word_def using u by blast
qed

text \<open>
  C10. Whenever the standalone word \<open>deep\<close> (in any mix of cases) occurs in the additional
  context, the company information or the job description, \<open>selectTier\<close> returns
  \<open>COMPLEX\<close>, whatever the analysis mode and however short the input: the second
  alternative of the deep-intent expression matches the bare word.
\<close>

theorem selectTier_deep_word:
  assumes "has_standalone_word ''deep'' (additionalContext input)
         \<or> has_standalone_word ''deep'' (companyInfo input)
         \<or> has_standalone_word ''deep'' (jobDescription input)"
  shows "selectTier input = COMPLEX"
proof -
  let ?ctx = "additionalContext input" and ?co = "companyInfo input" and ?jd = "jobDescription input"
  have "has_standalone_word ''deep'' (?ctx @ [CHR 0x0A] @ ?co @ [CHR 0x0A] @ ?jd)"
    using assms
  proof (elim disjE)
    assume "has_standalone_word ''deep'' ?ctx"
    from standalone_word_embedded [OF this, of "[]" "[CHR 0x0A] @ ?co @ [CHR 0x0A] @ ?jd"]
    show ?thesis using not_word_LF by simp
  next
    assume "has_standalone_word ''deep'' ?co"
    from standalone_word_embedded [OF this, of "?ctx @ [CHR 0x0A]" "[CHR 0x0A] @ ?jd"]
    show ?thesis using not_word_LF by simp
  next
    assume "has_standalone_word ''deep'' ?jd"
    from standalone_word_embedded [OF this, of "?ctx @ [CHR 0x0A] @ ?co @ [CHR 0x0A]" "[]"]
    show ?thesis using not_word_LF by simp
  qed
  then have "rx_test DEEP_ANALYSIS_REGEX (?ctx @ [CHR 0x0A] @ ?co @ [CHR 0x0A] @ ?jd)"
    by (rule deep_test)
  then show ?thesis by (simp add: selectTier_def Let_def)
qed

theorem selectTier_deep_word_witness:
  "has_standalone_word ''deep'' (jobDescription deep_learning_input)
   \<and> analysisMode deep_learning_input = Fast
   \<and> selectTier deep_learning_input = COMPLEX
   \<and> selectTier (deep_learning_input\<lparr>jobDescription := ''We use machine learning.''\<rparr>) = SIMPLE"
proof -
  have "\<exists>before u after. ''We use deep learning.'' = before @ u @ after \<and> toLowerCase u = ''deep''
          \<and> (before = [] \<or> \<not> is_word (last before)) \<and> (after = [] \<or> \<not> is_word (hd after))"
    by (rule exI [of _ "''We use ''"], rule exI [of _ "''deep''"], rule exI [of _ "'' learning.''"])
      code_simp
  then have word: "has_standalone_word ''deep'' (jobDescription deep_learning_input)"
    unfolding has_standalone_word_def deep_learning_input_def by simp
  have other: "selectTier (deep_learning_input\<lparr>jobDescription := ''We use machine learning.''\<rparr>) = SIMPLE"
    by code_simp
  from selectTier_deep_word [of deep_learning_input] word other show ?thesis
    by (simp add: deep_learning_input_def)
qed

section \<open>Proofs: the redactor\<close>

subsection \<open>Decimal numerals are injective\<close>

lemma code_unit_digit_char: "d < 10 \<Longrightarrow> code_unit (digit_char d) = 48 + d"
  by (simp add: code_unit_def digit_char_def)

lemma is_digit_digit_char: "d < 10 \<Longrightarrow> is_digit (digit_char d)"
  by (simp add: is_digit_def code_unit_digit_char)

lemma string_of_nat_digits: "list_all is_digit (string_of_nat n)"
proof (induction n rule: string_of_nat.induct)
  case (1 n)
  show ?case
  proof (cases "n < 10")
    case True
    then show ?thesis by (subst string_of_nat.simps) (simp add: is_digit_digit_char)
  next
    case False
    with 1 show ?thesis by (subst string_of_nat.simps) (simp add: is_digit_digit_char)
  qed
qed

lemma string_of_nat_nonempty: "string_of_nat n \<noteq> []"
  by (subst string_of_nat.simps) simp

text \<open>Reading the digits back gives the number.\<close>

lemma read_string_of_nat:
  "foldl (\<lambda>a c. 10 * a + (code_unit c - 48)) 0 (string_of_nat n) = n"
proof (induction n rule: string_of_nat.induct)
  case (1 n)
  show ?case
  proof (cases "n < 10")
    case True
    then show ?thesis by (subst string_of_nat.simps) (simp add: code_unit_digit_char)
  next
    case False
    with 1 show ?thesis by (subst string_of_nat.simps) (simp add: code_unit_digit_char)
  qed
qed

lemma string_of_nat_inj:
  assumes "string_of_nat m = string_of_nat n"
  shows "m = n"
proof -
  have "foldl (\<lambda>a c. 10 * a + (code_unit c - 48)) 0 (string_of_nat m)
      = foldl (\<lambda>a c. 10 * a + (code_unit c - 48)) 0 (string_of_nat n)"
    by (simp only: assms)
  then show ?thesis by (simp only: read_string_of_nat)
qed

subsection \<open>Keys and placeholders identify their type and value\<close>

lemma split_at_first:
  assumes "xs @ u # ys = xs' @ u # ys'" and "u \<notin> set xs" and "u \<notin> set xs'"
  shows "xs = xs' \<and> ys = ys'"
  using assms
proof (induction xs arbitrary: xs')
  case Nil
  then show ?case by (cases xs') auto
next
  case (Cons x xs)
  then show ?case by (cases xs') auto
qed

lemma split_at_last:
  assumes "xs @ u # ys = xs' @ u # ys'" and "u \<notin> set ys" and "u \<notin> set ys'"
  shows "xs = xs' \<and> ys = ys'"
proof -
  have "rev (xs @ u # ys) = rev (xs' @ u # ys')"
    by (simp only: assms(1))
  then have "rev ys @ u # rev xs = rev ys' @ u # rev xs'"
    by simp
  with assms(2,3) have "rev ys = rev ys' \<and> rev xs = rev xs'"
    by (intro split_at_first) auto
  then show ?thesis by simp
qed

lemma pii_type_name_inj: "pii_type_name t = pii_type_name t' \<Longrightarrow> t = t'"
  by (cases t; cases t') simp_all

lemma colon_not_in_type_name: "CHR '':'' \<notin> set (pii_type_name t)"
  by (cases t) simp_all

lemma pii_key_inj:
  assumes "pii_key t k = pii_key t' k'"
  shows "t = t' \<and> k = k'"
proof -
  from assms have "pii_type_name t @ CHR '':'' # k = pii_type_name t' @ CHR '':'' # k'"
    by (simp add: pii_key_def)
  then have "pii_type_name t = pii_type_name t' \<and> k = k'"
    by (rule split_at_first) (rule colon_not_in_type_name)+
  then show ?thesis by (simp add: pii_type_name_inj)
qed

lemma underscore_not_digit: "list_all is_digit ds \<Longrightarrow> CHR ''_'' \<notin> set ds"
  by (induction ds) (auto simp add: is_digit_def code_unit_def)

lemma pii_placeholder_inj:
  assumes "pii_placeholder t n = pii_placeholder t' n'"
  shows "t = t' \<and> n = n'"
proof -
  from assms have
    "pii_type_name t @ CHR ''_'' # string_of_nat n = pii_type_name t' @ CHR ''_'' # string_of_nat n'"
    by (simp add: pii_placeholder_def)
  then have "pii_type_name t = pii_type_name t' \<and> string_of_nat n = string_of_nat n'"
    by (rule split_at_last) (rule underscore_not_digit [OF string_of_nat_digits])+
  then show ?thesis by (simp add: pii_type_name_inj string_of_nat_inj)
qed

lemma pii_placeholder_nonempty: "pii_placeholder t n \<noteq> []"
  by (simp add: pii_placeholder_def)

lemma map_of_set_binding:
  "map_of (set_binding k v kvs) k' = (if k' = k then Some v else map_of kvs k')"
  by (induction kvs) auto

lemma same_pii_refl: "same_pii a a"
  by (simp add: same_pii_def)

lemma same_pii_sym: "same_pii a b \<Longrightarrow> same_pii b a"
  unfolding same_pii_def by metis

lemma same_pii_trans: "same_pii a b \<Longrightarrow> same_pii b c \<Longrightarrow> same_pii a c"
  unfolding same_pii_def by metis

lemma same_pii_key:
  "same_pii a b \<longleftrightarrow>
     pii_key (snd a) (normalizePiiKey (snd a) (fst a)) = pii_key (snd b) (normalizePiiKey (snd b) (fst b))"
  using pii_key_inj by (auto simp add: same_pii_def)

lemma register_all_append:
  "register_all (xs @ ys) st =
     (let (ps, st') = register_all xs st; (qs, st'') = register_all ys st' in (ps @ qs, st''))"
  by (induction xs arbitrary: st) (auto simp add: Let_def split: prod.splits)

subsection \<open>The invariant of the redactor\<close>

lemma same_pii_detection_key: "same_pii a b \<longleftrightarrow> detection_key a = detection_key b"
  by (simp add: same_pii_key detection_key_def)

lemma redactor_inv_initial: "redactor_inv [] [] createRedactor"
  by (simp add: redactor_inv_def createRedactor_def normalized_values_def)

lemma finite_normalized_values: "finite (normalized_values t calls)"
  by (simp add: normalized_values_def)

lemma normalized_values_snoc:
  "normalized_values t' (calls @ [(v, t)]) =
     (if t' = t then insert (normalizePiiKey t v) (normalized_values t' calls)
      else normalized_values t' calls)"
  by (auto simp add: normalized_values_def)

lemma in_normalized_values_iff:
  "normalizePiiKey t v \<in> normalized_values t calls \<longleftrightarrow> (\<exists>d\<in>set calls. same_pii d (v, t))"
proof
  assume "normalizePiiKey t v \<in> normalized_values t calls"
  then obtain d where "d \<in> set calls" "snd d = t"
    "normalizePiiKey t v = normalizePiiKey (snd d) (fst d)"
    by (auto simp add: normalized_values_def)
  then show "\<exists>d\<in>set calls. same_pii d (v, t)"
    by (auto simp add: same_pii_def)
next
  assume "\<exists>d\<in>set calls. same_pii d (v, t)"
  then obtain d where d: "d \<in> set calls" "snd d = t"
    "normalizePiiKey (snd d) (fst d) = normalizePiiKey t v"
    by (auto simp add: same_pii_def)
  have "(\<lambda>(v, t'). normalizePiiKey t' v) d = normalizePiiKey t v"
    using d(2,3) by (simp add: case_prod_beta)
  with d(1,2) show "normalizePiiKey t v \<in> normalized_values t calls"
    unfolding normalized_values_def by (metis (mono_tags, lifting) image_eqI mem_Collect_eq)
qed

lemma register_existing:
  assumes "map_of (keyToPlaceholder st) (detection_key (v, t)) = Some p" and "p \<noteq> []"
  shows "register v t st = (p, st)"
  using assms by (simp add: register_def detection_key_def Let_def)

lemma register_new:
  assumes "map_of (keyToPlaceholder st) (detection_key (v, t)) = None"
  shows "register v t st =
     (pii_placeholder t (counters st t + 1),
      \<lparr>counters = (counters st)(t := counters st t + 1),
       keyToPlaceholder = set_binding (detection_key (v, t)) (pii_placeholder t (counters st t + 1))
                            (keyToPlaceholder st),
       placeholderToOriginal = set_binding (pii_placeholder t (counters st t + 1)) (v, t)
                            (placeholderToOriginal st)\<rparr>)"
  using assms by (simp add: register_def detection_key_def Let_def)

lemma redactor_inv_step:
  assumes inv: "redactor_inv calls ps st" and reg: "register v t st = (p, st')"
  shows "redactor_inv (calls @ [(v, t)]) (ps @ [p]) st'"
proof -
  from inv have len: "length ps = length calls"
    and cnt: "\<And>t. counters st t = card (normalized_values t calls)"
    and found: "\<And>i. i < length calls \<Longrightarrow>
          map_of (keyToPlaceholder st) (detection_key (calls ! i)) = Some (ps ! i)"
    and absent: "\<And>c. (\<forall>d\<in>set calls. \<not> same_pii d c) \<Longrightarrow>
          map_of (keyToPlaceholder st) (detection_key c) = None"
    and form: "\<And>i. i < length calls \<Longrightarrow> \<exists>n. 1 \<le> n \<and> n \<le> counters st (snd (calls ! i))
          \<and> ps ! i = pii_placeholder (snd (calls ! i)) n"
    and iff: "\<And>i j. i < length calls \<Longrightarrow> j < length calls \<Longrightarrow>
          (ps ! i = ps ! j) = same_pii (calls ! i) (calls ! j)"
    and first: "\<And>i. i < length calls \<Longrightarrow> (\<forall>j<i. \<not> same_pii (calls ! j) (calls ! i)) \<Longrightarrow>
          ps ! i = pii_placeholder (snd (calls ! i))
                     (Suc (card (normalized_values (snd (calls ! i)) (take i calls))))
          \<and> map_of (placeholderToOriginal st) (ps ! i) = Some (calls ! i)"
    unfolding redactor_inv_def by blast+
  let ?calls = "calls @ [(v, t)]" and ?ps = "ps @ [p]"
  have nth_calls: "\<And>i. i < length calls \<Longrightarrow> ?calls ! i = calls ! i"
    and nth_ps: "\<And>i q. i < length calls \<Longrightarrow> (ps @ [q]) ! i = ps ! i"
    and last_calls: "?calls ! length calls = (v, t)"
    and last_ps: "\<And>q. (ps @ [q]) ! length calls = q"
    using len by (simp_all add: nth_append)
  have c0: "length ?ps = length ?calls" using len by simp
  show ?thesis
  proof (cases "\<exists>d\<in>set calls. same_pii d (v, t)")
    case True
    then obtain i0 where i0: "i0 < length calls" and same0: "same_pii (calls ! i0) (v, t)"
      by (auto simp add: in_set_conv_nth)
    from form [OF i0] obtain n0 where n0: "1 \<le> n0" "n0 \<le> counters st (snd (calls ! i0))"
      "ps ! i0 = pii_placeholder (snd (calls ! i0)) n0" by blast
    have t0: "snd (calls ! i0) = t" using same0 by (simp add: same_pii_def)
    have "map_of (keyToPlaceholder st) (detection_key (v, t)) = Some (ps ! i0)"
      using found [OF i0] same0 by (simp add: same_pii_detection_key)
    moreover have "ps ! i0 \<noteq> []" using n0(3) by (simp add: pii_placeholder_nonempty)
    ultimately have "register v t st = (ps ! i0, st)" by (rule register_existing)
    with reg have p: "p = ps ! i0" and st': "st' = st" by simp_all
    have same_new: "\<And>c. same_pii (v, t) c \<longleftrightarrow> same_pii (calls ! i0) c"
      using same0 same_pii_sym same_pii_trans by blast
    have c1: "\<forall>t'. counters st' t' = card (normalized_values t' ?calls)"
    proof
      fix t'
      have "normalizePiiKey t v \<in> normalized_values t calls"
        using True by (simp add: in_normalized_values_iff)
      then have "normalized_values t' ?calls = normalized_values t' calls"
        by (auto simp add: normalized_values_snoc)
      then show "counters st' t' = card (normalized_values t' ?calls)"
        by (simp add: st' cnt)
    qed
    have c2: "\<forall>i<length ?calls. map_of (keyToPlaceholder st') (detection_key (?calls ! i)) = Some (?ps ! i)"
    proof (intro allI impI)
      fix i assume "i < length ?calls"
      then consider "i < length calls" | "i = length calls" by fastforce
      then show "map_of (keyToPlaceholder st') (detection_key (?calls ! i)) = Some (?ps ! i)"
      proof cases
        case 1
        then show ?thesis using found [OF 1] by (simp add: nth_calls nth_ps st')
      next
        case 2
        have "detection_key (v, t) = detection_key (calls ! i0)"
          using same0 by (simp add: same_pii_detection_key)
        then show ?thesis using found [OF i0] by (simp add: 2 last_calls last_ps st' p)
      qed
    qed
    have c3: "\<forall>c. (\<forall>d\<in>set ?calls. \<not> same_pii d c) \<longrightarrow> map_of (keyToPlaceholder st') (detection_key c) = None"
      using absent by (simp add: st')
    have c4: "\<forall>i<length ?calls. \<exists>n. 1 \<le> n \<and> n \<le> counters st' (snd (?calls ! i))
          \<and> ?ps ! i = pii_placeholder (snd (?calls ! i)) n"
    proof (intro allI impI)
      fix i assume "i < length ?calls"
      then consider "i < length calls" | "i = length calls" by fastforce
      then show "\<exists>n. 1 \<le> n \<and> n \<le> counters st' (snd (?calls ! i))
          \<and> ?ps ! i = pii_placeholder (snd (?calls ! i)) n"
      proof cases
        case 1
        then show ?thesis using form [OF 1] by (simp add: nth_calls nth_ps st')
      next
        case 2
        show ?thesis using n0 t0 by (auto simp add: 2 last_calls last_ps st' p)
      qed
    qed
    have c5: "\<forall>i<length ?calls. \<forall>j<length ?calls. (?ps ! i = ?ps ! j) = same_pii (?calls ! i) (?calls ! j)"
    proof (intro allI impI)
      fix i j assume "i < length ?calls" "j < length ?calls"
      then consider "i < length calls" "j < length calls" | "i < length calls" "j = length calls"
        | "i = length calls" "j < length calls" | "i = length calls" "j = length calls" by fastforce
      then show "(?ps ! i = ?ps ! j) = same_pii (?calls ! i) (?calls ! j)"
      proof cases
        case 1
        then show ?thesis using iff by (simp add: nth_calls nth_ps)
      next
        case 2
        have "(ps ! i = ps ! i0) = same_pii (calls ! i) (calls ! i0)" using iff 2(1) i0 by blast
        also have "\<dots> = same_pii (calls ! i) (v, t)"
          using same0 same_pii_sym same_pii_trans by blast
        finally show ?thesis using 2 by (simp add: nth_calls nth_ps last_calls last_ps p)
      next
        case 3
        have "(ps ! i0 = ps ! j) = same_pii (calls ! i0) (calls ! j)" using iff 3(2) i0 by blast
        also have "\<dots> = same_pii (v, t) (calls ! j)" by (simp add: same_new)
        finally show ?thesis using 3 by (simp add: nth_calls nth_ps last_calls last_ps p)
      next
        case 4
        then show ?thesis by (simp add: same_pii_refl)
      qed
    qed
    have c6: "\<forall>i<length ?calls. (\<forall>j<i. \<not> same_pii (?calls ! j) (?calls ! i)) \<longrightarrow>
          ?ps ! i = pii_placeholder (snd (?calls ! i))
                     (Suc (card (normalized_values (snd (?calls ! i)) (take i ?calls))))
          \<and> map_of (placeholderToOriginal st') (?ps ! i) = Some (?calls ! i)"
    proof (intro allI impI)
      fix i assume i: "i < length ?calls" and fresh: "\<forall>j<i. \<not> same_pii (?calls ! j) (?calls ! i)"
      from i consider "i < length calls" | "i = length calls" by fastforce
      then show "?ps ! i = pii_placeholder (snd (?calls ! i))
                     (Suc (card (normalized_values (snd (?calls ! i)) (take i ?calls))))
          \<and> map_of (placeholderToOriginal st') (?ps ! i) = Some (?calls ! i)"
      proof cases
        case 1
        have "\<forall>j<i. \<not> same_pii (calls ! j) (calls ! i)"
          using fresh 1 by (auto simp add: nth_append)
        from first [OF 1 this]
        have a: "ps ! i = pii_placeholder (snd (calls ! i))
                     (Suc (card (normalized_values (snd (calls ! i)) (take i calls))))"
          and b: "map_of (placeholderToOriginal st) (ps ! i) = Some (calls ! i)" by blast+
        show ?thesis
        proof (intro conjI)
          show "?ps ! i = pii_placeholder (snd (?calls ! i))
                     (Suc (card (normalized_values (snd (?calls ! i)) (take i ?calls))))"
            using a 1 by (simp add: nth_calls nth_ps)
          show "map_of (placeholderToOriginal st') (?ps ! i) = Some (?calls ! i)"
            using b 1 by (simp add: nth_calls nth_ps st')
        qed
      next
        case 2
        with fresh i0 same0 have False by (auto simp add: nth_append)
        then show ?thesis ..
      qed
    qed
    show ?thesis
      unfolding redactor_inv_def by (intro conjI c0 c1 c2 c3 c4 c5 c6)
  next
    case False
    then have none: "\<forall>d\<in>set calls. \<not> same_pii d (v, t)" by blast
    then have lookup: "map_of (keyToPlaceholder st) (detection_key (v, t)) = None"
      by (rule absent)
    let ?n = "counters st t + 1"
    from register_new [OF lookup] reg have p: "p = pii_placeholder t ?n"
      and st': "st' = \<lparr>counters = (counters st)(t := ?n),
         keyToPlaceholder = set_binding (detection_key (v, t)) p (keyToPlaceholder st),
         placeholderToOriginal = set_binding p (v, t) (placeholderToOriginal st)\<rparr>"
      by auto
    have old_key: "\<And>i. i < length calls \<Longrightarrow> detection_key (calls ! i) \<noteq> detection_key (v, t)"
      using none by (auto simp add: same_pii_detection_key [symmetric])
    have old_ps: "\<And>i. i < length calls \<Longrightarrow> ps ! i \<noteq> p"
    proof
      fix i assume i: "i < length calls" and eq: "ps ! i = p"
      from form [OF i] obtain n where n: "n \<le> counters st (snd (calls ! i))"
        "ps ! i = pii_placeholder (snd (calls ! i)) n" by blast
      from eq n(2) p have "snd (calls ! i) = t \<and> n = ?n" by (simp add: pii_placeholder_inj)
      with n(1) show False by simp
    qed
    have c1: "\<forall>t'. counters st' t' = card (normalized_values t' ?calls)"
    proof
      fix t'
      have "normalizePiiKey t v \<notin> normalized_values t calls"
        using none by (simp add: in_normalized_values_iff)
      then show "counters st' t' = card (normalized_values t' ?calls)"
        by (simp add: st' cnt normalized_values_snoc finite_normalized_values)
    qed
    have c2: "\<forall>i<length ?calls. map_of (keyToPlaceholder st') (detection_key (?calls ! i)) = Some (?ps ! i)"
    proof (intro allI impI)
      fix i assume "i < length ?calls"
      then consider "i < length calls" | "i = length calls" by fastforce
      then show "map_of (keyToPlaceholder st') (detection_key (?calls ! i)) = Some (?ps ! i)"
      proof cases
        case 1
        then show ?thesis
          using found [OF 1] old_key [OF 1] by (simp add: nth_calls nth_ps st' map_of_set_binding)
      next
        case 2
        then show ?thesis by (simp add: last_calls last_ps st' map_of_set_binding)
      qed
    qed
    have c3: "\<forall>c. (\<forall>d\<in>set ?calls. \<not> same_pii d c) \<longrightarrow> map_of (keyToPlaceholder st') (detection_key c) = None"
    proof (intro allI impI)
      fix c assume a: "\<forall>d\<in>set ?calls. \<not> same_pii d c"
      then have "detection_key c \<noteq> detection_key (v, t)"
        by (auto simp add: same_pii_detection_key)
      moreover have "map_of (keyToPlaceholder st) (detection_key c) = None"
        using a by (intro absent) simp
      ultimately show "map_of (keyToPlaceholder st') (detection_key c) = None"
        by (simp add: st' map_of_set_binding)
    qed
    have c4: "\<forall>i<length ?calls. \<exists>n. 1 \<le> n \<and> n \<le> counters st' (snd (?calls ! i))
          \<and> ?ps ! i = pii_placeholder (snd (?calls ! i)) n"
    proof (intro allI impI)
      fix i assume "i < length ?calls"
      then consider "i < length calls" | "i = length calls" by fastforce
      then show "\<exists>n. 1 \<le> n \<and> n \<le> counters st' (snd (?calls ! i))
          \<and> ?ps ! i = pii_placeholder (snd (?calls ! i)) n"
      proof cases
        case 1
        from form [OF 1] obtain n where "1 \<le> n" "n \<le> counters st (snd (calls ! i))"
          "ps ! i = pii_placeholder (snd (calls ! i)) n" by blast
        then show ?thesis using 1 by (auto simp add: nth_calls nth_ps st' intro!: exI [of _ n])
      next
        case 2
        then show ?thesis
          by (auto simp add: last_calls last_ps st' p intro!: exI [of _ "Suc (counters st t)"])
      qed
    qed
    have c5: "\<forall>i<length ?calls. \<forall>j<length ?calls. (?ps ! i = ?ps ! j) = same_pii (?calls ! i) (?calls ! j)"
    proof (intro allI impI)
      fix i j assume "i < length ?calls" "j < length ?calls"
      then consider "i < length calls" "j < length calls" | "i < length calls" "j = length calls"
        | "i = length calls" "j < length calls" | "i = length calls" "j = length calls" by fastforce
      then show "(?ps ! i = ?ps ! j) = same_pii (?calls ! i) (?calls ! j)"
      proof cases
        case 1
        then show ?thesis using iff by (simp add: nth_calls nth_ps)
      next
        case 2
        have "\<not> same_pii (calls ! i) (v, t)" using none 2(1) by simp
        then show ?thesis using 2 old_ps [OF 2(1)] by (simp add: nth_calls nth_ps last_calls last_ps)
      next
        case 3
        have "\<not> same_pii (v, t) (calls ! j)" using none 3(2) same_pii_sym by (metis nth_mem)
        moreover have "p \<noteq> ps ! j" using old_ps [OF 3(2)] by simp
        ultimately show ?thesis using 3 by (simp add: nth_calls nth_ps last_calls last_ps)
      next
        case 4
        then show ?thesis by (simp add: same_pii_refl)
      qed
    qed
    have c6: "\<forall>i<length ?calls. (\<forall>j<i. \<not> same_pii (?calls ! j) (?calls ! i)) \<longrightarrow>
          ?ps ! i = pii_placeholder (snd (?calls ! i))
                     (Suc (card (normalized_values (snd (?calls ! i)) (take i ?calls))))
          \<and> map_of (placeholderToOriginal st') (?ps ! i) = Some (?calls ! i)"
    proof (intro allI impI)
      fix i assume i: "i < length ?calls" and fresh: "\<forall>j<i. \<not> same_pii (?calls ! j) (?calls ! i)"
      from i consider "i < length calls" | "i = length calls" by fastforce
      then show "?ps ! i = pii_placeholder (snd (?calls ! i))
                     (Suc (card (normalized_values (snd (?calls ! i)) (take i ?calls))))
          \<and> map_of (placeholderToOriginal st') (?ps ! i) = Some (?calls ! i)"
      proof cases
        case 1
        have "\<forall>j<i. \<not> same_pii (calls ! j) (calls ! i)"
          using fresh 1 by (auto simp add: nth_append)
        from first [OF 1 this]
        have a: "ps ! i = pii_placeholder (snd (calls ! i))
                     (Suc (card (normalized_values (snd (calls ! i)) (take i calls))))"
          and b: "map_of (placeholderToOriginal st) (ps ! i) = Some (calls ! i)" by blast+
        show ?thesis
        proof (intro conjI)
          show "?ps ! i = pii_placeholder (snd (?calls ! i))
                     (Suc (card (normalized_values (snd (?calls ! i)) (take i ?calls))))"
            using a 1 by (simp add: nth_calls nth_ps)
          show "map_of (placeholderToOriginal st') (?ps ! i) = Some (?calls ! i)"
            using b 1 old_ps [OF 1] by (simp add: nth_calls nth_ps st' map_of_set_binding)
        qed
      next
        case 2
        then show ?thesis by (simp add: last_calls last_ps st' map_of_set_binding p cnt)
      qed
    qed
    show ?thesis
      unfolding redactor_inv_def by (intro conjI c0 c1 c2 c3 c4 c5 c6)
  qed
qed

lemma redactor_inv_run:
  assumes "register_all calls createRedactor = (ps, st)"
  shows "redactor_inv calls ps st"
  using assms
proof (induction calls arbitrary: ps st rule: rev_induct)
  case Nil
  then show ?case using redactor_inv_initial by simp
next
  case (snoc c calls)
  obtain v t where c: "c = (v, t)" by (cases c)
  obtain qs st0 where run0: "register_all calls createRedactor = (qs, st0)"
    by (cases "register_all calls createRedactor")
  obtain p st1 where reg: "register v t st0 = (p, st1)" by (cases "register v t st0")
  from snoc.prems have "ps = qs @ [p]" and "st = st1"
    by (simp_all add: register_all_append c run0 reg)
  with redactor_inv_step [OF snoc.IH [OF run0] reg] show ?case by (simp add: c)
qed

text \<open>
  C7. In a run of the redactor, that is, for any sequence of \<open>register\<close> calls on a fresh
  redactor: two calls return the same placeholder exactly when their types and normalized
  values agree, so a pair has one placeholder, every later occurrence reuses it, and distinct
  normalized values (and distinct types) get distinct placeholders. Every placeholder is
  \<open>[PII_<TYPE>_<n>]\<close> with \<open>n \<ge> 1\<close>; at the first detection of a pair \<open>n\<close> is one more than
  the number of distinct normalized values of that type detected before, and the entry filed
  under the placeholder holds the value of that first detection.
\<close>

theorem register_placeholders_stable:
  assumes "register_all calls createRedactor = (ps, st)"
  shows "length ps = length calls
    \<and> (\<forall>i<length calls. \<forall>j<length calls. (ps ! i = ps ! j) = same_pii (calls ! i) (calls ! j))
    \<and> (\<forall>i<length calls. \<exists>n\<ge>1. ps ! i = pii_placeholder (snd (calls ! i)) n)
    \<and> (\<forall>i<length calls. (\<forall>j<i. \<not> same_pii (calls ! j) (calls ! i)) \<longrightarrow>
          ps ! i = pii_placeholder (snd (calls ! i))
                     (Suc (card (normalized_values (snd (calls ! i)) (take i calls))))
          \<and> \<lparr>placeholder = ps ! i, original = fst (calls ! i), type = snd (calls ! i)\<rparr>
              \<in> set (entries st))"
proof -
  from redactor_inv_run [OF assms] have inv: "redactor_inv calls ps st" .
  then have len: "length ps = length calls"
    and form: "\<And>i. i < length calls \<Longrightarrow> \<exists>n. 1 \<le> n \<and> n \<le> counters st (snd (calls ! i))
          \<and> ps ! i = pii_placeholder (snd (calls ! i)) n"
    and iff: "\<forall>i<length calls. \<forall>j<length calls. (ps ! i = ps ! j) = same_pii (calls ! i) (calls ! j)"
    and first: "\<And>i. i < length calls \<Longrightarrow> (\<forall>j<i. \<not> same_pii (calls ! j) (calls ! i)) \<Longrightarrow>
          ps ! i = pii_placeholder (snd (calls ! i))
                     (Suc (card (normalized_values (snd (calls ! i)) (take i calls))))
          \<and> map_of (placeholderToOriginal st) (ps ! i) = Some (calls ! i)"
    unfolding redactor_inv_def by blast+
  have shape: "\<forall>i<length calls. \<exists>n\<ge>1. ps ! i = pii_placeholder (snd (calls ! i)) n"
    using form by blast
  have firsts: "\<forall>i<length calls. (\<forall>j<i. \<not> same_pii (calls ! j) (calls ! i)) \<longrightarrow>
          ps ! i = pii_placeholder (snd (calls ! i))
                     (Suc (card (normalized_values (snd (calls ! i)) (take i calls))))
          \<and> \<lparr>placeholder = ps ! i, original = fst (calls ! i), type = snd (calls ! i)\<rparr>
              \<in> set (entries st)"
  proof (intro allI impI)
    fix i assume i: "i < length calls" and fresh: "\<forall>j<i. \<not> same_pii (calls ! j) (calls ! i)"
    from first [OF i fresh]
    have a: "ps ! i = pii_placeholder (snd (calls ! i))
                     (Suc (card (normalized_values (snd (calls ! i)) (take i calls))))"
      and b: "map_of (placeholderToOriginal st) (ps ! i) = Some (calls ! i)" by blast+
    from b have "(ps ! i, calls ! i) \<in> set (placeholderToOriginal st)"
      by (rule map_of_SomeD)
    then have "(\<lambda>(p, v, t). \<lparr>placeholder = p, original = v, type = t\<rparr>) (ps ! i, calls ! i)
        \<in> set (entries st)"
      unfolding entries_def by (simp only: set_map) (rule imageI)
    then have "\<lparr>placeholder = ps ! i, original = fst (calls ! i), type = snd (calls ! i)\<rparr>
        \<in> set (entries st)"
      by (simp add: case_prod_beta)
    with a show "ps ! i = pii_placeholder (snd (calls ! i))
                     (Suc (card (normalized_values (snd (calls ! i)) (take i calls))))
          \<and> \<lparr>placeholder = ps ! i, original = fst (calls ! i), type = snd (calls ! i)\<rparr>
              \<in> set (entries st)" by blast
  qed
  show ?thesis by (intro conjI len iff shape firsts)
qed

text \<open>Five detections in two fields: an address in two spellings, a second address, and a
  phone number in two spellings.\<close>

theorem register_placeholders_stable_witness:
  "fst (register_all detections_example createRedactor)
     = [''[PII_EMAIL_1]'', ''[PII_PHONE_1]'', ''[PII_EMAIL_1]'', ''[PII_EMAIL_2]'', ''[PII_PHONE_1]'']
   \<and> same_pii (detections_example ! 0) (detections_example ! 2)
   \<and> fst (register_all detections_example createRedactor) ! 0
       = fst (register_all detections_example createRedactor) ! 2
   \<and> \<not> same_pii (detections_example ! 0) (detections_example ! 3)
   \<and> fst (register_all detections_example createRedactor) ! 0
       \<noteq> fst (register_all detections_example createRedactor) ! 3"
proof -
  let ?ps = "fst (register_all detections_example createRedactor)"
  let ?st = "snd (register_all detections_example createRedactor)"
  have run: "register_all detections_example createRedactor = (?ps, ?st)" by simp
  have len: "length detections_example = 5" by (simp add: detections_example_def)
  have a: "?ps = [''[PII_EMAIL_1]'', ''[PII_PHONE_1]'', ''[PII_EMAIL_1]'', ''[PII_EMAIL_2]'',
      ''[PII_PHONE_1]'']" by code_simp
  have s02: "same_pii (detections_example ! 0) (detections_example ! 2)" by code_simp
  have s03: "\<not> same_pii (detections_example ! 0) (detections_example ! 3)" by code_simp
  from register_placeholders_stable [OF run]
  have iff: "\<forall>i<length detections_example. \<forall>j<length detections_example.
      (?ps ! i = ?ps ! j) = same_pii (detections_example ! i) (detections_example ! j)"
    by blast
  have e02: "?ps ! 0 = ?ps ! 2" using iff s02 len by simp
  have e03: "?ps ! 0 \<noteq> ?ps ! 3" using iff s03 len by simp
  show ?thesis by (intro conjI a s02 e02 s03 e03)
qed

section \<open>Proofs: metrics authorization\<close>

text \<open>
  The normal form of a token is the print of the double nearest to it: \<open>2^53 + 1\<close> is no
  double and is read as \<open>2^53\<close>, so a text may spell an allowed number of the vault in
  another way; a numeral beyond the range of the doubles is read as \<open>Infinity\<close> and has no
  normal form.
\<close>

lemma normalizeNumberToken_rounds:
  "normalizeNumberToken ''9007199254740993'' = Some ''9007199254740992''
   \<and> normalizeNumberToken ''0.30000000000000004'' = Some ''0.30000000000000004''
   \<and> normalizeNumberToken ''0.3000000000000000444'' = Some ''0.30000000000000004''
   \<and> normalizeNumberToken ''100000000000000000000000'' = Some ''1e+23''"
  by code_simp

lemma findUnauthorizedNumbersInText_rounds:
  "findUnauthorizedNumbersInText ''Revenue 9007199254740993'' [(''usersServed'', Some ''9007199254740992'')] = []"
  by code_simp

lemma normalizeNumberToken_overflow:
  "normalizeNumberToken ''1000000000000000000000000000000000000000000000000000000000000000000000000000000000000000000000000000000000000000000000000000000000000000000000000000000000000000000000000000000000000000000000000000000000000000000000000000000000000000000000000000000000000000000000000000000000000000000000000000000000000000000000'' = None"
  by code_simp

text \<open>
  C1. For the vault \<open>{projectImpact: "conversion +18%", latencyReduction: "120 ms"}\<close> and the
  text "Improved conversion by 18% and retention by 42%. Reduced latency by 120 ms.",
  \<open>findUnauthorizedNumbersInText\<close> returns exactly \<open>["42"]\<close>: the allowed numbers are 18 and
  120, the numbers of the text are 18, 42 and 120. And \<open>2,300\<close>, \<open>2300\<close> and \<open>2300.0\<close> all
  normalize to the token \<open>2300\<close>.
\<close>

theorem findUnauthorizedNumbersInText_example:
  "findUnauthorizedNumbersInText example_text example_vault = [''42'']
   \<and> getAllowedMetricNumbers example_vault = [''18'', ''120'']
   \<and> extractNormalizedNumberTokens example_text = [''18'', ''42'', ''120'']
   \<and> extractNormalizedNumberTokens ''2,300'' = [''2300'']
   \<and> extractNormalizedNumberTokens ''2300'' = [''2300'']
   \<and> extractNormalizedNumberTokens ''2300.0'' = [''2300'']
   \<and> extractNormalizedNumberTokens ''2,300 or 2300 or 2300.0'' = [''2300'']"
  by code_simp

section \<open>Proofs: evidence of the score stage\<close>

lemma str_includes_iff_sublist: "str_includes s sub \<longleftrightarrow> sublist sub s"
  by (induction s) (simp_all add: sublist_Cons_right)

subsection \<open>Words\<close>

lemma split_words_Nil [simp]: "split_words [] = []"
  by (subst split_words.simps) simp

lemma split_words_space [simp]: "is_space c \<Longrightarrow> split_words (c # cs) = split_words cs"
  by (subst split_words.simps, subst (2) split_words.simps) simp

lemma takeWhile_word:
  "list_all (\<lambda>c. \<not> is_space c) w \<Longrightarrow> is_space x
   \<Longrightarrow> takeWhile (\<lambda>c. \<not> is_space c) (w @ x # r) = w"
  by (induction w) simp_all

lemma dropWhile_word:
  "list_all (\<lambda>c. \<not> is_space c) w \<Longrightarrow> is_space x
   \<Longrightarrow> dropWhile (\<lambda>c. \<not> is_space c) (w @ x # r) = x # r"
  by (induction w) simp_all

lemma takeWhile_word_end:
  "list_all (\<lambda>c. \<not> is_space c) w \<Longrightarrow> takeWhile (\<lambda>c. \<not> is_space c) w = w"
  by (induction w) simp_all

lemma dropWhile_word_end:
  "list_all (\<lambda>c. \<not> is_space c) w \<Longrightarrow> dropWhile (\<lambda>c. \<not> is_space c) w = []"
  by (induction w) simp_all

lemma split_words_single: "proper_word w \<Longrightarrow> split_words w = [w]"
proof -
  assume w: "proper_word w"
  then obtain c cs where wc: "w = c # cs" and c: "\<not> is_space c"
    by (cases w) (auto simp add: proper_word_def)
  have "dropWhile is_space w = c # cs" using wc c by simp
  moreover have "takeWhile (\<lambda>x. \<not> is_space x) (c # cs) = w"
    using w wc takeWhile_word_end [of w] by (simp add: proper_word_def)
  moreover have "dropWhile (\<lambda>x. \<not> is_space x) (c # cs) = []"
    using w wc dropWhile_word_end [of w] by (simp add: proper_word_def)
  ultimately show ?thesis by (subst split_words.simps) simp
qed

lemma split_words_word_space:
  assumes w: "proper_word w" and x: "is_space x"
  shows "split_words (w @ x # r) = w # split_words r"
proof -
  from w obtain c cs where wc: "w = c # cs" and c: "\<not> is_space c"
    by (cases w) (auto simp add: proper_word_def)
  have all: "list_all (\<lambda>c. \<not> is_space c) w" using w by (simp add: proper_word_def)
  have "dropWhile is_space (w @ x # r) = (c # cs) @ x # r" using wc c by simp
  moreover have "takeWhile (\<lambda>x. \<not> is_space x) ((c # cs) @ x # r) = w"
    using takeWhile_word [OF all x] wc by simp
  moreover have "dropWhile (\<lambda>x. \<not> is_space x) ((c # cs) @ x # r) = x # r"
    using dropWhile_word [OF all x] wc by simp
  ultimately have "split_words (w @ x # r) = w # split_words (x # r)"
    by (subst split_words.simps) simp
  then show ?thesis using x by simp
qed

lemma space_is_space: "is_space CHR '' ''"
  by (simp add: is_space_def code_unit_def)

lemma split_words_join:
  "list_all proper_word ws \<Longrightarrow> split_words (join '' '' ws) = ws"
proof (induction "'' ''" ws rule: join.induct)
  case 1
  show ?case by simp
next
  case (2 x)
  then show ?case by (simp add: split_words_single)
next
  case (3 x y ys)
  then show ?case by (simp add: split_words_word_space space_is_space)
qed

lemma list_all_takeWhile: "list_all P (takeWhile P xs)"
  by (induction xs) simp_all

lemma split_words_proper: "list_all proper_word (split_words s)"
proof (induction s rule: split_words.induct)
  case (1 s)
  show ?case
  proof (cases "dropWhile is_space s")
    case Nil
    then show ?thesis by (subst split_words.simps) (simp del: dropWhile_eq_Nil_conv)
  next
    case (Cons c cs)
    have c: "\<not> is_space c"
      using Cons hd_dropWhile [of is_space s] by (metis list.sel(1) list.simps(3))
    have "takeWhile (\<lambda>x. \<not> is_space x) (c # cs) \<noteq> []" using c by simp
    then have "proper_word (takeWhile (\<lambda>x. \<not> is_space x) (c # cs))"
      unfolding proper_word_def using list_all_takeWhile [of "\<lambda>x. \<not> is_space x" "c # cs"]
      by blast
    moreover have "list_all proper_word (split_words (dropWhile (\<lambda>x. \<not> is_space x) (c # cs)))"
      using 1 Cons by simp
    ultimately show ?thesis using Cons by (subst split_words.simps) simp
  qed
qed

lemma list_all_take: "list_all P xs \<Longrightarrow> list_all P (take n xs)"
  by (induction xs arbitrary: n) (simp_all add: take_Cons split: nat.splits)

lemma clampSnippetWords_count: "length (split_words (clampSnippetWords v)) \<le> 20"
proof -
  have "list_all proper_word (take MAX_EVIDENCE_WORDS (split_words v))"
    by (intro list_all_take split_words_proper)
  then have "split_words (clampSnippetWords v) = take MAX_EVIDENCE_WORDS (split_words v)"
    unfolding clampSnippetWords_def by (rule split_words_join)
  then show ?thesis by (simp add: MAX_EVIDENCE_WORDS_def)
qed

lemma asSnippetArray_count: "list_all (\<lambda>q. length (split_words q) \<le> 20) (asSnippetArray v)"
  by (simp add: asSnippetArray_def list_all_iff clampSnippetWords_count)

subsection \<open>A normalized snippet is never blank\<close>

lemma dropWhile_keeps: "x \<in> set xs \<Longrightarrow> \<not> P x \<Longrightarrow> dropWhile P xs \<noteq> []"
  by (induction xs) auto

lemma trim_nonempty: "\<not> is_space c \<Longrightarrow> trim (c # cs) \<noteq> []"
proof -
  assume c: "\<not> is_space c"
  have "dropWhile is_space (rev (c # cs)) \<noteq> []"
    using c by (intro dropWhile_keeps [of c]) simp_all
  then show ?thesis using c by (simp add: trim_def)
qed

lemma normalizeForMatch_nonempty: "\<not> is_space c \<Longrightarrow> normalizeForMatch (c # cs) \<noteq> []"
  by (simp add: normalizeForMatch_def toLowerCase_def trim_nonempty)

lemma trim_has_nonspace:
  assumes "trim s \<noteq> []"
  shows "\<exists>c\<in>set (trim s). \<not> is_space c"
proof -
  let ?r = "dropWhile is_space (rev (dropWhile is_space s))"
  from assms have ne: "?r \<noteq> []" by (simp add: trim_def)
  then have "\<not> is_space (hd ?r)" by (rule hd_dropWhile)
  moreover have "hd ?r \<in> set (trim s)" using ne by (simp add: trim_def)
  ultimately show ?thesis by blast
qed

lemma split_words_nonempty:
  assumes "\<exists>c\<in>set s. \<not> is_space c"
  shows "split_words s \<noteq> []"
proof -
  from assms have "dropWhile is_space s \<noteq> []" by auto
  then show ?thesis by (subst split_words.simps) (simp split: list.splits)
qed

lemma join_starts:
  assumes "ws \<noteq> []" and "list_all proper_word ws"
  shows "\<exists>c cs. join '' '' ws = c # cs \<and> \<not> is_space c"
proof -
  from assms obtain w ws' where ws: "ws = w # ws'" and w: "proper_word w" by (cases ws) auto
  from w obtain c cs where wc: "w = c # cs" and c: "\<not> is_space c"
    by (cases w) (auto simp add: proper_word_def)
  show ?thesis using c by (cases ws') (simp_all add: ws wc)
qed

lemma asNullableString_has_nonspace:
  assumes "asNullableString item = Some t"
  shows "\<exists>c\<in>set t. \<not> is_space c"
proof -
  from assms obtain s where "item = JStr s" and t: "t = trim s" and "trim s \<noteq> []"
    by (cases item) (auto simp add: asNullableString_def Let_def split: if_splits)
  then show ?thesis using trim_has_nonspace by simp
qed

lemma asStringArray_has_nonspace:
  assumes "t \<in> set (asStringArray v)"
  shows "\<exists>c\<in>set t. \<not> is_space c"
proof -
  from assms obtain item where "asNullableString item = Some t"
    by (auto simp add: asStringArray_def split: option.splits)
  then show ?thesis by (rule asNullableString_has_nonspace)
qed

lemma snippet_not_blank:
  assumes "q \<in> set (asSnippetArray v)"
  shows "\<exists>c cs. q = c # cs \<and> \<not> is_space c"
proof -
  from assms obtain t where t: "t \<in> set (asStringArray v)" and q: "q = clampSnippetWords t"
    by (auto simp add: asSnippetArray_def)
  have "split_words t \<noteq> []"
    using asStringArray_has_nonspace [OF t] by (rule split_words_nonempty)
  then have "take MAX_EVIDENCE_WORDS (split_words t) \<noteq> []"
    by (simp add: MAX_EVIDENCE_WORDS_def)
  moreover have "list_all proper_word (take MAX_EVIDENCE_WORDS (split_words t))"
    by (intro list_all_take split_words_proper)
  ultimately show ?thesis unfolding q clampSnippetWords_def by (rule join_starts)
qed

lemma normalizeForMatch_Nil [simp]: "normalizeForMatch [] = []"
  by (simp add: normalizeForMatch_def toLowerCase_def trim_def)

lemma existsInSource_snippet:
  assumes "q \<in> set (asSnippetArray v)"
  shows "existsInSource q source \<longleftrightarrow> occurs_in q source"
proof -
  from snippet_not_blank [OF assms] obtain c cs where q: "q = c # cs" and c: "\<not> is_space c"
    by blast
  have ne: "normalizeForMatch q \<noteq> []" unfolding q using c by (rule normalizeForMatch_nonempty)
  show ?thesis
  proof (cases "source = []")
    case True
    then show ?thesis using ne by (simp add: existsInSource_def occurs_in_def)
  next
    case False
    then show ?thesis by (simp add: existsInSource_def occurs_in_def str_includes_iff_sublist q)
  qed
qed

lemma filter_existsInSource:
  "filter (\<lambda>q. existsInSource q source) (asSnippetArray v)
   = filter (\<lambda>q. occurs_in q source) (asSnippetArray v)"
  by (rule filter_cong) (simp_all add: existsInSource_snippet)

subsection \<open>The filtered evidence\<close>

lemma normalized_gap_evidence:
  assumes "i < length (gapAnalysis (normalizeScoreMatch raw))"
  shows "\<exists>e. evidence (gapAnalysis (normalizeScoreMatch raw) ! i) = normalizeEvidence e"
  using assms by (auto simp add: normalizeScoreMatch_def Let_def)

lemma normalizeEvidence_lists:
  "\<exists>a b c. resumeQuotes (normalizeEvidence e) = asSnippetArray a
     \<and> jdQuotes (normalizeEvidence e) = asSnippetArray b
     \<and> missingKeywords (normalizeEvidence e) = asSnippetArray c"
  by (simp add: normalizeEvidence_def Let_def) blast

lemma list_all_filter_same: "list_all P (filter P xs)"
  by (induction xs) simp_all

lemma list_all_filter_keep: "list_all P xs \<Longrightarrow> list_all P (filter Q xs)"
  by (induction xs) simp_all

text \<open>
  C8. What the score stage returns has, gap item by gap item, the evidence of the normalized
  model output filtered against the sources: the surviving resume quotes are exactly the
  normalized ones that occur (after collapsing whitespace, trimming and lowering both sides)
  as a substring of the resume plus cover letter, the surviving job-description quotes and
  missing keywords exactly those that occur so in the job description, in their order; a
  snippet that does not occur is dropped. Every surviving snippet has at most 20 words.
\<close>

theorem score_evidence_from_source:
  "(let normalized = normalizeScoreMatch raw;
        result = score_stage_result raw sourceText;
        resumeCorpus = source_resumeContent sourceText @ [CHR 0x0A] @ source_coverLetterContent sourceText;
        jd = source_jobDescription sourceText
    in length (gapAnalysis result) = length (gapAnalysis normalized)
     \<and> (\<forall>i<length (gapAnalysis result).
          resumeQuotes (evidence (gapAnalysis result ! i))
            = filter (\<lambda>q. occurs_in q resumeCorpus) (resumeQuotes (evidence (gapAnalysis normalized ! i)))
        \<and> jdQuotes (evidence (gapAnalysis result ! i))
            = filter (\<lambda>q. occurs_in q jd) (jdQuotes (evidence (gapAnalysis normalized ! i)))
        \<and> missingKeywords (evidence (gapAnalysis result ! i))
            = filter (\<lambda>q. occurs_in q jd) (missingKeywords (evidence (gapAnalysis normalized ! i)))
        \<and> all_snippets (\<lambda>q. length (split_words q) \<le> 20) (evidence (gapAnalysis result ! i))
        \<and> list_all (\<lambda>q. occurs_in q resumeCorpus) (resumeQuotes (evidence (gapAnalysis result ! i)))
        \<and> list_all (\<lambda>q. occurs_in q jd) (jdQuotes (evidence (gapAnalysis result ! i)))
        \<and> list_all (\<lambda>q. occurs_in q jd) (missingKeywords (evidence (gapAnalysis result ! i)))))"
proof -
  let ?normalized = "normalizeScoreMatch raw"
  let ?result = "score_stage_result raw sourceText"
  let ?corpus = "source_resumeContent sourceText @ [CHR 0x0A] @ source_coverLetterContent sourceText"
  let ?jd = "source_jobDescription sourceText"
  have len: "length (gapAnalysis ?result) = length (gapAnalysis ?normalized)"
    by (simp add: score_stage_result_def enforceEvidenceFromSource_def)
  have each: "resumeQuotes (evidence (gapAnalysis ?result ! i))
            = filter (\<lambda>q. occurs_in q ?corpus) (resumeQuotes (evidence (gapAnalysis ?normalized ! i)))
        \<and> jdQuotes (evidence (gapAnalysis ?result ! i))
            = filter (\<lambda>q. occurs_in q ?jd) (jdQuotes (evidence (gapAnalysis ?normalized ! i)))
        \<and> missingKeywords (evidence (gapAnalysis ?result ! i))
            = filter (\<lambda>q. occurs_in q ?jd) (missingKeywords (evidence (gapAnalysis ?normalized ! i)))
        \<and> all_snippets (\<lambda>q. length (split_words q) \<le> 20) (evidence (gapAnalysis ?result ! i))
        \<and> list_all (\<lambda>q. occurs_in q ?corpus) (resumeQuotes (evidence (gapAnalysis ?result ! i)))
        \<and> list_all (\<lambda>q. occurs_in q ?jd) (jdQuotes (evidence (gapAnalysis ?result ! i)))
        \<and> list_all (\<lambda>q. occurs_in q ?jd) (missingKeywords (evidence (gapAnalysis ?result ! i)))"
    if i: "i < length (gapAnalysis ?result)" for i
  proof -
    from i len have i': "i < length (gapAnalysis ?normalized)" by simp
    from normalized_gap_evidence [OF i'] obtain e
      where e: "evidence (gapAnalysis ?normalized ! i) = normalizeEvidence e" by blast
    from normalizeEvidence_lists [of e] obtain a b c
      where a: "resumeQuotes (normalizeEvidence e) = asSnippetArray a"
        and b: "jdQuotes (normalizeEvidence e) = asSnippetArray b"
        and c: "missingKeywords (normalizeEvidence e) = asSnippetArray c" by blast
    have r: "resumeQuotes (evidence (gapAnalysis ?result ! i))
        = filter (\<lambda>q. occurs_in q ?corpus) (asSnippetArray a)"
      using i' by (simp add: score_stage_result_def enforceEvidenceFromSource_def e a
          filter_existsInSource)
    have j: "jdQuotes (evidence (gapAnalysis ?result ! i))
        = filter (\<lambda>q. occurs_in q ?jd) (asSnippetArray b)"
      using i' by (simp add: score_stage_result_def enforceEvidenceFromSource_def e b
          filter_existsInSource)
    have m: "missingKeywords (evidence (gapAnalysis ?result ! i))
        = filter (\<lambda>q. occurs_in q ?jd) (asSnippetArray c)"
      using i' by (simp add: score_stage_result_def enforceEvidenceFromSource_def e c
          filter_existsInSource)
    have count: "all_snippets (\<lambda>q. length (split_words q) \<le> 20) (evidence (gapAnalysis ?result ! i))"
      unfolding all_snippets_def r j m
      by (intro conjI list_all_filter_keep asSnippetArray_count)
    show ?thesis
      unfolding e a b c using r j m count by (simp add: list_all_filter_same)
  qed
  show ?thesis unfolding Let_def using len each by blast
qed

theorem score_evidence_from_source_witness:
  "evidence (gapAnalysis (score_stage_result evidence_example_output evidence_example_source) ! 0)
     = \<lparr>resumeQuotes = [''built ML pipelines''], jdQuotes = [''Required: Python, SQL, AWS''],
        missingKeywords = [''AWS'']\<rparr>
   \<and> resumeQuotes (evidence (gapAnalysis (normalizeScoreMatch evidence_example_output) ! 0))
     = [''built ML pipelines'', ''led a team of ten'']
   \<and> all_snippets (\<lambda>q. length (split_words q) \<le> 20)
       (evidence (gapAnalysis (score_stage_result evidence_example_output evidence_example_source) ! 0))
   \<and> list_all (\<lambda>q. occurs_in q (source_jobDescription evidence_example_source))
       (missingKeywords
         (evidence (gapAnalysis (score_stage_result evidence_example_output evidence_example_source) ! 0)))"
proof -
  have a: "evidence (gapAnalysis (score_stage_result evidence_example_output evidence_example_source) ! 0)
     = \<lparr>resumeQuotes = [''built ML pipelines''], jdQuotes = [''Required: Python, SQL, AWS''],
        missingKeywords = [''AWS'']\<rparr>"
    by code_simp
  have b: "resumeQuotes (evidence (gapAnalysis (normalizeScoreMatch evidence_example_output) ! 0))
     = [''built ML pipelines'', ''led a team of ten'']"
    by code_simp
  have l: "0 < length (gapAnalysis (score_stage_result evidence_example_output evidence_example_source))"
    by code_simp
  from score_evidence_from_source [of evidence_example_output evidence_example_source] l
  have c: "all_snippets (\<lambda>q. length (split_words q) \<le> 20)
       (evidence (gapAnalysis (score_stage_result evidence_example_output evidence_example_source) ! 0))"
    and d: "list_all (\<lambda>q. occurs_in q (source_jobDescription evidence_example_source))
       (missingKeywords
         (evidence (gapAnalysis (score_stage_result evidence_example_output evidence_example_source) ! 0)))"
    unfolding Let_def by blast+
  show ?thesis by (intro conjI a b c d)
qed

section \<open>Retrieval: the chunk ids depend on the words only\<close>

subsection \<open>Line endings do not matter to the collapsed text\<close>

lemma is_space_CR_LF: "is_space (CHR 0x0D)" "is_space (CHR 0x0A)"
  by (simp_all add: is_space_def code_unit_def)

lemma dropWhile_crlf: "dropWhile is_space (crlf_to_lf t) = crlf_to_lf (dropWhile is_space t)"
proof (induction t rule: crlf_to_lf.induct)
  case 1
  show ?case by simp
next
  case (2 c)
  show ?case by simp
next
  case (3 c d cs)
  show ?case
  proof (cases "c = CHR 0x0D \<and> d = CHR 0x0A")
    case True
    with 3 show ?thesis by (simp add: is_space_CR_LF)
  next
    case False
    with 3 show ?thesis by (cases "is_space c") (auto simp add: is_space_CR_LF)
  qed
qed

lemma collapse_crlf: "collapse_whitespace (crlf_to_lf s) = collapse_whitespace s"
proof (induction "length s" arbitrary: s rule: less_induct)
  case less
  show ?case
  proof (cases s rule: crlf_to_lf.cases)
    case 1
    then show ?thesis by simp
  next
    case (2 c)
    then show ?thesis by simp
  next
    case (3 c d cs)
    have shorter: "length (dropWhile is_space t) < length s" if "length t < length s" for t
      using that length_dropWhile_le [of is_space t] by simp
    have len: "length cs < length s" "length (d # cs) < length s" by (simp_all add: 3)
    show ?thesis
    proof (cases "c = CHR 0x0D \<and> d = CHR 0x0A")
      case True
      have "collapse_whitespace (crlf_to_lf (dropWhile is_space cs))
            = collapse_whitespace (dropWhile is_space cs)"
        by (rule less) (rule shorter [OF len(1)])
      then show ?thesis using True by (simp add: 3 is_space_CR_LF dropWhile_crlf)
    next
      case False
      show ?thesis
      proof (cases "is_space c")
        case True
        have ih: "collapse_whitespace (crlf_to_lf (dropWhile is_space (d # cs)))
              = collapse_whitespace (dropWhile is_space (d # cs))"
          by (rule less) (rule shorter [OF len(2)])
        have e: "crlf_to_lf (c # d # cs) = c # crlf_to_lf (d # cs)"
          using \<open>\<not> (c = CHR 0x0D \<and> d = CHR 0x0A)\<close> by simp
        have "collapse_whitespace (crlf_to_lf s)
              = CHR '' '' # collapse_whitespace (dropWhile is_space (crlf_to_lf (d # cs)))"
          unfolding 3 e using True by (simp del: crlf_to_lf.simps)
        also have "\<dots> = CHR '' '' # collapse_whitespace (crlf_to_lf (dropWhile is_space (d # cs)))"
          by (simp only: dropWhile_crlf)
        also have "\<dots> = CHR '' '' # collapse_whitespace (dropWhile is_space (d # cs))"
          by (simp only: ih)
        also have "\<dots> = collapse_whitespace s"
          unfolding 3 using True by (simp del: dropWhile.simps)
        finally show ?thesis .
      next
        case nonspace: False
        have "collapse_whitespace (crlf_to_lf (d # cs)) = collapse_whitespace (d # cs)"
          by (rule less) (rule len(2))
        then show ?thesis using False nonspace by (simp add: 3)
      qed
    qed
  qed
qed

subsection \<open>The normalized text is the words, joined by single spaces\<close>

lemma collapse_word_prefix:
  "list_all (\<lambda>c. \<not> is_space c) w \<Longrightarrow> collapse_whitespace (w @ r) = w @ collapse_whitespace r"
  by (induction w) simp_all

lemma filter_nonspace_dropWhile:
  "filter (\<lambda>c. \<not> is_space c) (dropWhile is_space s) = filter (\<lambda>c. \<not> is_space c) s"
  by (induction s) simp_all

lemma filter_nonspace_collapse:
  "filter (\<lambda>c. \<not> is_space c) (collapse_whitespace s) = filter (\<lambda>c. \<not> is_space c) s"
  by (induction s rule: collapse_whitespace.induct)
    (simp_all add: filter_nonspace_dropWhile space_is_space)

lemma has_nonspace_filter: "(\<exists>c\<in>set s. \<not> is_space c) \<longleftrightarrow> filter (\<lambda>c. \<not> is_space c) s \<noteq> []"
  by (simp add: filter_empty_conv)

lemma has_nonspace_collapse:
  "(\<exists>c\<in>set (collapse_whitespace s). \<not> is_space c) \<longleftrightarrow> (\<exists>c\<in>set s. \<not> is_space c)"
  by (simp only: has_nonspace_filter filter_nonspace_collapse)

lemma collapse_starts_nonspace:
  "t = [] \<or> \<not> is_space (hd t) \<Longrightarrow> dropWhile is_space (collapse_whitespace t) = collapse_whitespace t"
  by (cases t) auto

lemma dropWhile_collapse:
  "dropWhile is_space (collapse_whitespace s) = collapse_whitespace (dropWhile is_space s)"
proof (cases s)
  case Nil
  then show ?thesis by simp
next
  case (Cons c cs)
  show ?thesis
  proof (cases "is_space c")
    case True
    have "dropWhile is_space cs = [] \<or> \<not> is_space (hd (dropWhile is_space cs))"
      using hd_dropWhile [of is_space cs] by blast
    from collapse_starts_nonspace [OF this] True show ?thesis
      by (simp add: Cons space_is_space)
  next
    case False
    then show ?thesis by (simp add: Cons)
  qed
qed

lemma rtrim_keep:
  assumes "\<exists>c\<in>set ys. \<not> is_space c"
  shows "rev (dropWhile is_space (rev (xs @ ys))) = xs @ rev (dropWhile is_space (rev ys))"
proof -
  from assms obtain c where "c \<in> set (rev ys)" "\<not> is_space c" by auto
  then have "dropWhile is_space (rev ys @ rev xs) = dropWhile is_space (rev ys) @ rev xs"
    by (rule dropWhile_append1)
  then show ?thesis by simp
qed

lemma rtrim_drop:
  assumes "\<forall>c\<in>set ys. is_space c"
  shows "rev (dropWhile is_space (rev (xs @ ys))) = rev (dropWhile is_space (rev xs))"
proof -
  from assms have "\<And>c. c \<in> set (rev ys) \<Longrightarrow> is_space c" by simp
  then have "dropWhile is_space (rev ys @ rev xs) = dropWhile is_space (rev xs)"
    by (rule dropWhile_append2)
  then show ?thesis by simp
qed

lemma rtrim_word:
  assumes "proper_word w"
  shows "rev (dropWhile is_space (rev w)) = w"
proof -
  from assms have "w \<noteq> []" and "\<not> is_space (last w)"
    by (auto simp add: proper_word_def list_all_iff)
  then have "\<not> is_space (hd (rev w))" and "rev w \<noteq> []" by (simp_all add: hd_rev)
  then have "dropWhile is_space (rev w) = rev w" by (cases "rev w") auto
  then show ?thesis by simp
qed

lemma split_words_empty_iff: "split_words s = [] \<longleftrightarrow> (\<forall>c\<in>set s. is_space c)"
proof
  assume "split_words s = []"
  then show "\<forall>c\<in>set s. is_space c" using split_words_nonempty [of s] by blast
next
  assume "\<forall>c\<in>set s. is_space c"
  then have "dropWhile is_space s = []" by simp
  then show "split_words s = []" by (subst split_words.simps) (simp del: dropWhile_eq_Nil_conv)
qed

lemma trim_collapse_words: "trim (collapse_whitespace s) = join '' '' (split_words s)"
proof (induction s rule: split_words.induct)
  case (1 s)
  define d where "d = dropWhile is_space s"
  have t: "trim (collapse_whitespace s) = rev (dropWhile is_space (rev (collapse_whitespace d)))"
    by (simp add: trim_def dropWhile_collapse d_def)
  show ?case
  proof (cases d)
    case Nil
    then have "split_words s = []"
      unfolding d_def by (subst split_words.simps) (simp del: dropWhile_eq_Nil_conv)
    then show ?thesis by (simp only: t Nil) simp
  next
    case (Cons c cs)
    define w where "w = takeWhile (\<lambda>x. \<not> is_space x) (c # cs)"
    define r where "r = dropWhile (\<lambda>x. \<not> is_space x) (c # cs)"
    have dc: "dropWhile is_space s = c # cs" using Cons by (simp only: d_def)
    have c: "\<not> is_space c"
      using dc hd_dropWhile [of is_space s] by (metis list.sel(1) list.simps(3))
    have "w \<noteq> []" using c by (simp add: w_def)
    then have w: "proper_word w"
      unfolding proper_word_def w_def
      using list_all_takeWhile [of "\<lambda>x. \<not> is_space x" "c # cs"] by blast
    have wall: "list_all (\<lambda>c. \<not> is_space c) w" using w by (simp add: proper_word_def)
    have words: "split_words s = w # split_words r"
      unfolding w_def r_def by (subst split_words.simps) (simp only: dc list.case)
    have IH: "trim (collapse_whitespace r) = join '' '' (split_words r)"
      unfolding r_def using 1 [OF dc] .
    have "d = w @ r" unfolding w_def r_def Cons by (simp only: takeWhile_dropWhile_id)
    then have dd: "collapse_whitespace d = w @ collapse_whitespace r"
      using collapse_word_prefix [OF wall] by simp
    have rhead: "r = [] \<or> is_space (hd r)"
      unfolding r_def using hd_dropWhile [of "\<lambda>x. \<not> is_space x" "c # cs"] by blast
    show ?thesis
    proof (cases "split_words r = []")
      case True
      then have "\<forall>c\<in>set r. is_space c" by (simp only: split_words_empty_iff)
      then have "\<forall>c\<in>set (collapse_whitespace r). is_space c"
        using has_nonspace_collapse [of r] by blast
      then have "rev (dropWhile is_space (rev (w @ collapse_whitespace r)))
            = rev (dropWhile is_space (rev w))"
        by (rule rtrim_drop)
      also have "\<dots> = w" by (rule rtrim_word [OF w])
      finally have "trim (collapse_whitespace s) = w" by (simp only: t dd)
      moreover have "join '' '' (split_words s) = w" by (simp only: words True join.simps)
      ultimately show ?thesis by simp
    next
      case False
      then have some: "\<exists>c\<in>set r. \<not> is_space c" by (simp only: split_words_empty_iff) blast
      then obtain x r' where r: "r = x # r'" by (cases r) auto
      have x: "is_space x" using rhead by (simp add: r)
      define y where "y = collapse_whitespace (dropWhile is_space r)"
      have cr: "collapse_whitespace r = CHR '' '' # y"
        using x by (simp add: r y_def)
      have ysome: "\<exists>c\<in>set y. \<not> is_space c"
        unfolding y_def using some
        by (simp add: has_nonspace_filter filter_nonspace_collapse filter_nonspace_dropWhile del: dropWhile_eq_Nil_conv)
      have "trim (collapse_whitespace r) = rev (dropWhile is_space (rev y))"
        by (simp add: trim_def dropWhile_collapse y_def)
      with IH have yj: "rev (dropWhile is_space (rev y)) = join '' '' (split_words r)" by simp
      have csome: "\<exists>c\<in>set (collapse_whitespace r). \<not> is_space c"
        using some by (simp only: has_nonspace_collapse)
      have "rev (dropWhile is_space (rev (w @ collapse_whitespace r)))
            = w @ rev (dropWhile is_space (rev (collapse_whitespace r)))"
        using csome by (rule rtrim_keep)
      also have "rev (dropWhile is_space (rev (collapse_whitespace r)))
            = [CHR '' ''] @ rev (dropWhile is_space (rev y))"
        using rtrim_keep [OF ysome, of "[CHR '' '']"] by (simp only: cr append_Cons append_Nil)
      finally have "trim (collapse_whitespace s) = w @ '' '' @ join '' '' (split_words r)"
        by (simp only: t dd yj)
      moreover obtain v vs where vs: "split_words r = v # vs"
        using False by (cases "split_words r") auto
      have "join '' '' (split_words s) = w @ '' '' @ join '' '' (split_words r)"
        by (simp only: words vs join.simps)
      ultimately show ?thesis by simp
    qed
  qed
qed

lemma normalizeText_words: "normalizeText s = join '' '' (split_words s)"
  by (simp add: normalizeText_def collapse_crlf trim_collapse_words)

lemma same_words_normalizeText: "same_words a b \<Longrightarrow> normalizeText a = normalizeText b"
  by (simp add: normalizeText_words same_words_def)

lemma chunkTextForRetrieval_words:
  "same_words a b \<Longrightarrow>
   chunkTextForRetrieval source a maxChars overlap = chunkTextForRetrieval source b maxChars overlap"
  by (simp add: chunkTextForRetrieval_def same_words_normalizeText)

lemma buildRetrievalChunks_words:
  assumes "\<And>source. same_words (source_field source a) (source_field source b)"
  shows "buildRetrievalChunks a maxChars overlap = buildRetrievalChunks b maxChars overlap"
  unfolding buildRetrievalChunks_def
  by (simp add: chunkTextForRetrieval_words [OF assms])

text \<open>
  C6. \<open>selectRetrievalChunkIds\<close> is a function of the words of the five text fields: two
  inputs whose job description, resume, cover letter, company information and additional
  context have the same words in the same order, so that they differ only in leading,
  trailing and internal whitespace runs (and in any other field), get the same ordered list
  of chunk ids, for every limit and every collation of the host. With both inputs the same
  this is the determinism of repeated calls.
\<close>

theorem selectRetrievalChunkIds_whitespace_invariant:
  assumes "same_words (jobDescription a) (jobDescription b)"
    and "same_words (resumeContent a) (resumeContent b)"
    and "same_words (coverLetterContent a) (coverLetterContent b)"
    and "same_words (companyInfo a) (companyInfo b)"
    and "same_words (additionalContext a) (additionalContext b)"
  shows "selectRetrievalChunkIds localeCompare a limit = selectRetrievalChunkIds localeCompare b limit"
proof -
  have "same_words (source_field source a) (source_field source b)" for source
    using assms by (cases source) simp_all
  then have "buildRetrievalChunks a DEFAULT_MAX_CHARS DEFAULT_OVERLAP
      = buildRetrievalChunks b DEFAULT_MAX_CHARS DEFAULT_OVERLAP"
    by (rule buildRetrievalChunks_words)
  then show ?thesis
    by (simp add: selectRetrievalChunkIds_def selectRetrievalChunks_def)
qed

theorem selectRetrievalChunkIds_whitespace_invariant_witness:
  "resumeContent retrieval_example \<noteq> resumeContent retrieval_example_spaced
   \<and> same_words (resumeContent retrieval_example) (resumeContent retrieval_example_spaced)
   \<and> selectRetrievalChunkIds compare_code_units retrieval_example 8
       = selectRetrievalChunkIds compare_code_units retrieval_example_spaced 8
   \<and> selectRetrievalChunkIds compare_code_units retrieval_example 8
       = [''jobDescription:0:0-103'', ''resumeContent:0:0-108'', ''coverLetterContent:0:0-58'',
          ''companyInfo:0:0-71'', ''additionalContext:0:0-27'']"
proof -
  have differ: "resumeContent retrieval_example \<noteq> resumeContent retrieval_example_spaced"
    by code_simp
  have resume: "same_words (resumeContent retrieval_example) (resumeContent retrieval_example_spaced)"
    by code_simp
  have others: "jobDescription retrieval_example_spaced = jobDescription retrieval_example"
    "coverLetterContent retrieval_example_spaced = coverLetterContent retrieval_example"
    "companyInfo retrieval_example_spaced = companyInfo retrieval_example"
    "additionalContext retrieval_example_spaced = additionalContext retrieval_example"
    by (simp_all add: retrieval_example_spaced_def)
  have ids: "selectRetrievalChunkIds compare_code_units retrieval_example 8
       = [''jobDescription:0:0-103'', ''resumeContent:0:0-108'', ''coverLetterContent:0:0-58'',
          ''companyInfo:0:0-71'', ''additionalContext:0:0-27'']"
    by code_simp
  have "selectRetrievalChunkIds compare_code_units retrieval_example 8
       = selectRetrievalChunkIds compare_code_units retrieval_example_spaced 8"
    by (rule selectRetrievalChunkIds_whitespace_invariant)
      (simp_all only: others same_words_def resume [unfolded same_words_def])
  with differ resume ids show ?thesis by (intro conjI)
qed

section \<open>Proofs: schema validation\<close>

lemma get_prop_JObj [simp]:
  "get_prop (JObj kvs) k = (case map_of kvs k of Some x \<Rightarrow> x | None \<Rightarrow> JUndefined)"
  by (simp add: get_prop_def)

lemma isStringArray_js_strings [simp]: "isStringArray (js_strings xs)"
  by (induction xs) (simp_all add: isStringArray_def js_strings_def isString_def)

lemma isNullableString_js [simp]: "isNullableString (js_nullable_string v)"
  by (cases v) (simp_all add: isNullableString_def js_nullable_string_def isString_def)

lemma isNullableNumber_js [simp]: "isNullableNumber (js_nullable_number v)"
  by (cases v) (simp_all add: isNullableNumber_def js_nullable_number_def isNumber_def)

lemma isNullableNumber_JStr [simp]: "\<not> isNullableNumber (JStr t)"
  by (simp add: isNullableNumber_def isNumber_def)

lemma isRetrievalTraceArray_js [simp]: "isRetrievalTraceArray (JArr (map js_trace_entry xs))"
  by (induction xs)
    (simp_all add: isRetrievalTraceArray_def js_trace_entry_def isObject_def isString_def)

lemma js_category_cases: "js_category c = JStr ''critical'' \<or> js_category c = JStr ''optional''"
  by (cases c) (simp_all add: js_category_def)

lemma improvement_errors_js [simp]: "improvement_errors i (js_improvement x) = []"
  using js_category_cases [of "category x"]
  by (auto simp add: improvement_errors_def js_improvement_def js_evidence_def isObject_def
      push_unless_def Let_def)

lemma improvements_errors_js [simp]: "improvements_errors i (map js_improvement xs) = []"
  by (induction xs arbitrary: i) simp_all

lemmas js_result_defs =
  js_analysis_result_def js_score_breakdown_def js_keyword_coverage_def js_analysis_trace_def
  isObject_def isString_def isNumber_def push_unless_def

lemma schema_errors_typed: "schema_errors (js_analysis_result r) = []"
  by (simp add: schema_errors_def js_result_defs)

lemma validate_typed:
  "validateAnalysisResultSchema (js_analysis_result r) = \<lparr>valid = True, errors = []\<rparr>"
  by (simp add: validateAnalysisResultSchema_def schema_errors_typed)
    (simp add: js_analysis_result_def isObject_def)

lemma validate_retries_string:
  "validateAnalysisResultSchema (with_retries r (JStr s))
   = \<lparr>valid = False, errors = [''analysisTrace.retries must be number.'']\<rparr>"
  by (simp add: validateAnalysisResultSchema_def schema_errors_def js_result_defs spread_with_def
      with_retries_def)

lemma validate_two_defects:
  "validateAnalysisResultSchema (spread_with (with_retries r (JStr s)) ''jobFitScore'' (JStr t))
   = \<lparr>valid = False,
      errors = [''jobFitScore must be number|null.'', ''analysisTrace.retries must be number.'']\<rparr>"
  by (simp add: validateAnalysisResultSchema_def schema_errors_def js_result_defs spread_with_def
      with_retries_def)

lemma retries_error_reported:
  assumes "isObject v" and "isObject (get_prop v ''analysisTrace'')"
    and "\<not> isNumber (get_prop (get_prop v ''analysisTrace'') ''retries'')"
  shows "''analysisTrace.retries must be number.'' \<in> set (schema_errors v)"
  using assms by (simp add: schema_errors_def push_unless_def)

subsection \<open>Every check reports on its own\<close>

lemma bracket_no_digit: "\<not> is_digit (CHR '']'')"
  by code_simp

lemma improvement_index_inj:
  assumes "''improvements['' @ string_of_nat i @ '']'' @ r = ''improvements['' @ string_of_nat j @ '']'' @ r'"
  shows "i = j \<and> r = r'"
proof -
  from assms have eq: "string_of_nat i @ CHR '']'' # r = string_of_nat j @ CHR '']'' # r'"
    by simp
  have "CHR '']'' \<notin> set (string_of_nat n)" for n
    using string_of_nat_digits [of n] bracket_no_digit by (auto simp add: list_all_iff)
  then have "string_of_nat i = string_of_nat j \<and> r = r'"
    using eq by (intro split_at_first) auto
  then show ?thesis by (auto dest: string_of_nat_inj)
qed

lemma improvement_errors_shape:
  "m \<in> set (improvement_errors j x) \<Longrightarrow> \<exists>r. m = ''improvements['' @ string_of_nat j @ '']'' @ r"
  by (auto simp add: improvement_errors_def Let_def push_unless_def split: if_splits)

lemma improvements_errors_prefix:
  "m \<in> set (improvements_errors k xs) \<Longrightarrow> prefix ''improvements['' m"
proof (induction xs arbitrary: k)
  case Nil
  then show ?case by simp
next
  case (Cons x xs)
  from Cons.prems have "m \<in> set (improvement_errors k x) \<or> m \<in> set (improvements_errors (Suc k) xs)"
    by simp
  then show ?case
  proof
    assume "m \<in> set (improvement_errors k x)"
    then obtain r where "m = ''improvements['' @ string_of_nat k @ '']'' @ r"
      using improvement_errors_shape by blast
    then show ?thesis by simp
  next
    assume "m \<in> set (improvements_errors (Suc k) xs)"
    then show ?thesis by (rule Cons.IH)
  qed
qed

lemma in_improvements_errors:
  "(''improvements['' @ string_of_nat j @ '']'' @ r \<in> set (improvements_errors k xs))
   = (k \<le> j \<and> j < k + length xs
      \<and> ''improvements['' @ string_of_nat j @ '']'' @ r \<in> set (improvement_errors j (xs ! (j - k))))"
proof (induction xs arbitrary: k)
  case Nil
  show ?case by simp
next
  case (Cons x xs)
  let ?m = "''improvements['' @ string_of_nat j @ '']'' @ r"
  have here: "?m \<in> set (improvement_errors k x) \<Longrightarrow> j = k"
  proof -
    assume "?m \<in> set (improvement_errors k x)"
    then obtain r' where "?m = ''improvements['' @ string_of_nat k @ '']'' @ r'"
      using improvement_errors_shape by blast
    then show "j = k" using improvement_index_inj by blast
  qed
  show ?case
  proof (cases "j = k")
    case True
    have "?m \<notin> set (improvements_errors (Suc k) xs)"
      unfolding Cons.IH [of "Suc k"] using True by simp
    then show ?thesis using True by simp
  next
    case False
    then have "?m \<notin> set (improvement_errors k x)" using here by blast
    moreover have "k \<le> j \<and> j < k + length (x # xs) \<longleftrightarrow> Suc k \<le> j \<and> j < Suc k + length xs"
      using False by auto
    moreover have "Suc k \<le> j \<Longrightarrow> (x # xs) ! (j - k) = xs ! (j - Suc k)"
      by (simp add: Suc_diff_le)
    ultimately show ?thesis
      using Cons.IH [of "Suc k"] by auto
  qed
qed

lemma in_improvements_errors_0:
  "(''improvements['' @ string_of_nat i @ '']'' @ r \<in> set (improvements_errors 0 xs))
   = (i < length xs
      \<and> ''improvements['' @ string_of_nat i @ '']'' @ r \<in> set (improvement_errors i (xs ! i)))"
  using in_improvements_errors [of i r 0 xs] by simp

lemma improvements_part_prefix:
  "\<not> prefix ''improvements'' m \<Longrightarrow>
   (m \<in> set (case x of JArr xs \<Rightarrow> improvements_errors 0 xs | _ \<Rightarrow> [''improvements must be an array.'']))
   = False"
proof -
  assume no: "\<not> prefix ''improvements'' m"
  have "prefix ''improvements'' ''improvements[''" by simp
  then have "\<not> prefix ''improvements['' m"
    using no prefix_order.trans by blast
  then have "m \<notin> set (improvements_errors 0 xs)" for xs
    using improvements_errors_prefix by blast
  moreover have "m \<noteq> ''improvements must be an array.''"
    using no by auto
  ultimately show ?thesis by (cases x) simp_all
qed

lemma object_validation:
  assumes "isObject v"
  shows "errors (validateAnalysisResultSchema v) = schema_errors v"
    and "valid (validateAnalysisResultSchema v) = (schema_errors v = [])"
  using assms by (simp_all add: validateAnalysisResultSchema_def)

lemma scoreBreakdown_reported:
  "(''scoreBreakdown is required and must be an object.'' \<in> set (schema_errors v))
     = (\<not> isObject (get_prop v ''scoreBreakdown''))"
  "(''scoreBreakdown.baseline must be number|null.'' \<in> set (schema_errors v))
     = (isObject (get_prop v ''scoreBreakdown'')
        \<and> \<not> isNullableNumber (get_prop (get_prop v ''scoreBreakdown'') ''baseline''))"
  "(''scoreBreakdown.enhanced must be number|null.'' \<in> set (schema_errors v))
     = (isObject (get_prop v ''scoreBreakdown'')
        \<and> \<not> isNullableNumber (get_prop (get_prop v ''scoreBreakdown'') ''enhanced''))"
  "(''scoreBreakdown.explanation must be string|null.'' \<in> set (schema_errors v))
     = (isObject (get_prop v ''scoreBreakdown'')
        \<and> \<not> isNullableString (get_prop (get_prop v ''scoreBreakdown'') ''explanation''))"
  by (simp_all add: schema_errors_def push_unless_def improvements_part_prefix)

lemma top_level_reported:
  "(''jobFitScore must be number|null.'' \<in> set (schema_errors v))
     = (\<not> isNullableNumber (get_prop v ''jobFitScore''))"
  "(''overallFeedback must be string|null.'' \<in> set (schema_errors v))
     = (\<not> isNullableString (get_prop v ''overallFeedback''))"
  "(''optimizedResume must be string|null.'' \<in> set (schema_errors v))
     = (\<not> isNullableString (get_prop v ''optimizedResume''))"
  "(''optimizedCoverLetter must be string|null.'' \<in> set (schema_errors v))
     = (\<not> isNullableString (get_prop v ''optimizedCoverLetter''))"
  "(''portfolioAdvice must be string|null.'' \<in> set (schema_errors v))
     = (\<not> isNullableString (get_prop v ''portfolioAdvice''))"
  "(''recruiterNotes must be string|null.'' \<in> set (schema_errors v))
     = (\<not> isNullableString (get_prop v ''recruiterNotes''))"
  "(''evidenceSnippetWordLimit must be a number.'' \<in> set (schema_errors v))
     = (\<not> isNumber (get_prop v ''evidenceSnippetWordLimit''))"
  "(''hardRequirementsMissing must be string[].'' \<in> set (schema_errors v))
     = (\<not> isStringArray (get_prop v ''hardRequirementsMissing''))"
  by (simp_all add: schema_errors_def push_unless_def improvements_part_prefix)

lemma keywordCoverage_reported:
  "(''keywordCoverage is required and must be an object.'' \<in> set (schema_errors v))
     = (\<not> isObject (get_prop v ''keywordCoverage''))"
  "(''keywordCoverage.matched must be string[].'' \<in> set (schema_errors v))
     = (isObject (get_prop v ''keywordCoverage'')
        \<and> \<not> isStringArray (get_prop (get_prop v ''keywordCoverage'') ''matched''))"
  "(''keywordCoverage.missing must be string[].'' \<in> set (schema_errors v))
     = (isObject (get_prop v ''keywordCoverage'')
        \<and> \<not> isStringArray (get_prop (get_prop v ''keywordCoverage'') ''missing''))"
  "(''keywordCoverage.partial must be string[].'' \<in> set (schema_errors v))
     = (isObject (get_prop v ''keywordCoverage'')
        \<and> \<not> isStringArray (get_prop (get_prop v ''keywordCoverage'') ''partial''))"
  by (simp_all add: schema_errors_def push_unless_def improvements_part_prefix)

lemma analysisTrace_reported:
  "(''analysisTrace is required and must be an object.'' \<in> set (schema_errors v))
     = (\<not> isObject (get_prop v ''analysisTrace''))"
  "(''analysisTrace.inputHash must be string.'' \<in> set (schema_errors v))
     = (isObject (get_prop v ''analysisTrace'')
        \<and> \<not> isString (get_prop (get_prop v ''analysisTrace'') ''inputHash''))"
  "(''analysisTrace.retrievalChunkIds must be string[].'' \<in> set (schema_errors v))
     = (isObject (get_prop v ''analysisTrace'')
        \<and> \<not> isStringArray (get_prop (get_prop v ''analysisTrace'') ''retrievalChunkIds''))"
  "(''analysisTrace.retrievalTrace must be { chunkId: string; reason: string }[].'' \<in> set (schema_errors v))
     = (isObject (get_prop v ''analysisTrace'')
        \<and> \<not> isRetrievalTraceArray (get_prop (get_prop v ''analysisTrace'') ''retrievalTrace''))"
  "(''analysisTrace.modelName must be string.'' \<in> set (schema_errors v))
     = (isObject (get_prop v ''analysisTrace'')
        \<and> \<not> isString (get_prop (get_prop v ''analysisTrace'') ''modelName''))"
  "(''analysisTrace.tier must be string.'' \<in> set (schema_errors v))
     = (isObject (get_prop v ''analysisTrace'')
        \<and> \<not> isString (get_prop (get_prop v ''analysisTrace'') ''tier''))"
  "(''analysisTrace.timestamp must be string.'' \<in> set (schema_errors v))
     = (isObject (get_prop v ''analysisTrace'')
        \<and> \<not> isString (get_prop (get_prop v ''analysisTrace'') ''timestamp''))"
  "(''analysisTrace.retries must be number.'' \<in> set (schema_errors v))
     = (isObject (get_prop v ''analysisTrace'')
        \<and> \<not> isNumber (get_prop (get_prop v ''analysisTrace'') ''retries''))"
  by (simp_all add: schema_errors_def push_unless_def improvements_part_prefix)

lemma improvements_array_reported:
  "(''improvements must be an array.'' \<in> set (schema_errors v))
     = (\<forall>xs. get_prop v ''improvements'' \<noteq> JArr xs)"
proof -
  have "''improvements must be an array.'' \<notin> set (improvements_errors 0 xs)" for xs
    using improvements_errors_prefix [of "''improvements must be an array.''" 0 xs] by auto
  then show ?thesis
    by (cases "get_prop v ''improvements''") (simp_all add: schema_errors_def push_unless_def)
qed

lemma improvement_reported:
  assumes "get_prop v ''improvements'' = JArr xs"
  shows "(''improvements['' @ string_of_nat i @ '']'' @ r \<in> set (schema_errors v))
     = (i < length xs
        \<and> ''improvements['' @ string_of_nat i @ '']'' @ r \<in> set (improvement_errors i (xs ! i)))"
  using in_improvements_errors_0 [of i r xs]
  by (simp add: schema_errors_def push_unless_def assms)

lemma improvement_checks:
  "(''improvements['' @ string_of_nat i @ '']'' @ '' must be an object.'' \<in> set (improvement_errors i x))
     = (\<not> isObject x)"
  "(''improvements['' @ string_of_nat i @ '']'' @ ''.point must be string|null.'' \<in> set (improvement_errors i x))
     = (isObject x \<and> \<not> isNullableString (get_prop x ''point''))"
  "(''improvements['' @ string_of_nat i @ '']'' @ ''.category must be '' @ [CHR 0x22] @ ''critical''
       @ [CHR 0x22] @ ''|'' @ [CHR 0x22] @ ''optional'' @ [CHR 0x22] @ ''.'' \<in> set (improvement_errors i x))
     = (isObject x \<and> get_prop x ''category'' \<noteq> JStr ''critical'' \<and> get_prop x ''category'' \<noteq> JStr ''optional'')"
  "(''improvements['' @ string_of_nat i @ '']'' @ ''.impact must be string|null.'' \<in> set (improvement_errors i x))
     = (isObject x \<and> \<not> isNullableString (get_prop x ''impact''))"
  "(''improvements['' @ string_of_nat i @ '']'' @ ''.evidence must be an object.'' \<in> set (improvement_errors i x))
     = (isObject x \<and> \<not> isObject (get_prop x ''evidence''))"
  "(''improvements['' @ string_of_nat i @ '']'' @ ''.evidence.resumeQuotes must be string[].''
       \<in> set (improvement_errors i x))
     = (isObject x \<and> isObject (get_prop x ''evidence'')
        \<and> \<not> isStringArray (get_prop (get_prop x ''evidence'') ''resumeQuotes''))"
  "(''improvements['' @ string_of_nat i @ '']'' @ ''.evidence.jdQuotes must be string[].''
       \<in> set (improvement_errors i x))
     = (isObject x \<and> isObject (get_prop x ''evidence'')
        \<and> \<not> isStringArray (get_prop (get_prop x ''evidence'') ''jdQuotes''))"
  "(''improvements['' @ string_of_nat i @ '']'' @ ''.evidence.missingKeywords must be string[].''
       \<in> set (improvement_errors i x))
     = (isObject x \<and> isObject (get_prop x ''evidence'')
        \<and> \<not> isStringArray (get_prop (get_prop x ''evidence'') ''missingKeywords''))"
  by (auto simp add: improvement_errors_def Let_def push_unless_def)

lemma improvement_absent:
  assumes "get_prop v ''improvements'' = JArr xs" and "length xs \<le> i"
  shows "''improvements['' @ string_of_nat i @ '']'' @ ending \<notin> set (schema_errors v)"
  using assms(2) improvement_reported [OF assms(1), of i ending] by simp

text \<open>
  C9. A typed \<open>AnalysisResult\<close> is accepted with no error. The same result with
  \<open>analysisTrace.retries\<close> set to a string is rejected, and the one error names the path
  \<open>analysisTrace.retries\<close>; a second defect (a string as \<open>jobFitScore\<close>) adds its own message
  and keeps the first. Errors accumulate, for any object whatsoever: the result is valid
  exactly when there is no error, and every check reports on its own, whatever else is
  wrong with the object. The message of a field is among the errors exactly when the value
  of that field has the wrong type (for a field of \<open>scoreBreakdown\<close>, \<open>keywordCoverage\<close> or
  \<open>analysisTrace\<close>: when that parent is an object and the value has the wrong type; when the
  parent is no object, that is what is reported). The same holds for every element of
  \<open>improvements\<close>, with the index of the element in the message, and nothing is reported
  for an index beyond the array.
\<close>

theorem validateAnalysisResultSchema_accumulates:
  "validateAnalysisResultSchema (js_analysis_result r) = \<lparr>valid = True, errors = []\<rparr>
   \<and> validateAnalysisResultSchema (with_retries r (JStr s))
       = \<lparr>valid = False, errors = [''analysisTrace.retries must be number.'']\<rparr>
   \<and> validateAnalysisResultSchema (spread_with (with_retries r (JStr s)) ''jobFitScore'' (JStr t))
       = \<lparr>valid = False,
          errors = [''jobFitScore must be number|null.'', ''analysisTrace.retries must be number.'']\<rparr>
   \<and> (isObject v \<and> isObject (get_prop v ''analysisTrace'')
        \<and> \<not> isNumber (get_prop (get_prop v ''analysisTrace'') ''retries'')
      \<longrightarrow> \<not> valid (validateAnalysisResultSchema v)
          \<and> ''analysisTrace.retries must be number.'' \<in> set (errors (validateAnalysisResultSchema v)))
   \<and> (isObject v \<longrightarrow>
        valid (validateAnalysisResultSchema v) = (errors (validateAnalysisResultSchema v) = [])
      \<and> (''scoreBreakdown is required and must be an object.'' \<in> set (errors (validateAnalysisResultSchema v)))
          = (\<not> isObject (get_prop v ''scoreBreakdown''))
      \<and> (''scoreBreakdown.baseline must be number|null.'' \<in> set (errors (validateAnalysisResultSchema v)))
          = (isObject (get_prop v ''scoreBreakdown'')
             \<and> \<not> isNullableNumber (get_prop (get_prop v ''scoreBreakdown'') ''baseline''))
      \<and> (''scoreBreakdown.enhanced must be number|null.'' \<in> set (errors (validateAnalysisResultSchema v)))
          = (isObject (get_prop v ''scoreBreakdown'')
             \<and> \<not> isNullableNumber (get_prop (get_prop v ''scoreBreakdown'') ''enhanced''))
      \<and> (''scoreBreakdown.explanation must be string|null.'' \<in> set (errors (validateAnalysisResultSchema v)))
          = (isObject (get_prop v ''scoreBreakdown'')
             \<and> \<not> isNullableString (get_prop (get_prop v ''scoreBreakdown'') ''explanation''))
      \<and> (''jobFitScore must be number|null.'' \<in> set (errors (validateAnalysisResultSchema v)))
          = (\<not> isNullableNumber (get_prop v ''jobFitScore''))
      \<and> (''overallFeedback must be string|null.'' \<in> set (errors (validateAnalysisResultSchema v)))
          = (\<not> isNullableString (get_prop v ''overallFeedback''))
      \<and> (''optimizedResume must be string|null.'' \<in> set (errors (validateAnalysisResultSchema v)))
          = (\<not> isNullableString (get_prop v ''optimizedResume''))
      \<and> (''optimizedCoverLetter must be string|null.'' \<in> set (errors (validateAnalysisResultSchema v)))
          = (\<not> isNullableString (get_prop v ''optimizedCoverLetter''))
      \<and> (''portfolioAdvice must be string|null.'' \<in> set (errors (validateAnalysisResultSchema v)))
          = (\<not> isNullableString (get_prop v ''portfolioAdvice''))
      \<and> (''recruiterNotes must be string|null.'' \<in> set (errors (validateAnalysisResultSchema v)))
          = (\<not> isNullableString (get_prop v ''recruiterNotes''))
      \<and> (''evidenceSnippetWordLimit must be a number.'' \<in> set (errors (validateAnalysisResultSchema v)))
          = (\<not> isNumber (get_prop v ''evidenceSnippetWordLimit''))
      \<and> (''keywordCoverage is required and must be an object.'' \<in> set (errors (validateAnalysisResultSchema v)))
          = (\<not> isObject (get_prop v ''keywordCoverage''))
      \<and> (''keywordCoverage.matched must be string[].'' \<in> set (errors (validateAnalysisResultSchema v)))
          = (isObject (get_prop v ''keywordCoverage'')
             \<and> \<not> isStringArray (get_prop (get_prop v ''keywordCoverage'') ''matched''))
      \<and> (''keywordCoverage.missing must be string[].'' \<in> set (errors (validateAnalysisResultSchema v)))
          = (isObject (get_prop v ''keywordCoverage'')
             \<and> \<not> isStringArray (get_prop (get_prop v ''keywordCoverage'') ''missing''))
      \<and> (''keywordCoverage.partial must be string[].'' \<in> set (errors (validateAnalysisResultSchema v)))
          = (isObject (get_prop v ''keywordCoverage'')
             \<and> \<not> isStringArray (get_prop (get_prop v ''keywordCoverage'') ''partial''))
      \<and> (''hardRequirementsMissing must be string[].'' \<in> set (errors (validateAnalysisResultSchema v)))
          = (\<not> isStringArray (get_prop v ''hardRequirementsMissing''))
      \<and> (''improvements must be an array.'' \<in> set (errors (validateAnalysisResultSchema v)))
          = (\<forall>xs. get_prop v ''improvements'' \<noteq> JArr xs)
      \<and> (\<forall>xs i. get_prop v ''improvements'' = JArr xs \<and> i < length xs \<longrightarrow>
            (''improvements['' @ string_of_nat i @ '']'' @ '' must be an object.''
                \<in> set (errors (validateAnalysisResultSchema v)))
              = (\<not> isObject (xs ! i))
          \<and> (''improvements['' @ string_of_nat i @ '']'' @ ''.point must be string|null.''
                \<in> set (errors (validateAnalysisResultSchema v)))
              = (isObject (xs ! i) \<and> \<not> isNullableString (get_prop (xs ! i) ''point''))
          \<and> (''improvements['' @ string_of_nat i @ '']'' @ ''.category must be '' @ [CHR 0x22] @ ''critical''
                  @ [CHR 0x22] @ ''|'' @ [CHR 0x22] @ ''optional'' @ [CHR 0x22] @ ''.''
                \<in> set (errors (validateAnalysisResultSchema v)))
              = (isObject (xs ! i) \<and> get_prop (xs ! i) ''category'' \<noteq> JStr ''critical''
                 \<and> get_prop (xs ! i) ''category'' \<noteq> JStr ''optional'')
          \<and> (''improvements['' @ string_of_nat i @ '']'' @ ''.impact must be string|null.''
                \<in> set (errors (validateAnalysisResultSchema v)))
              = (isObject (xs ! i) \<and> \<not> isNullableString (get_prop (xs ! i) ''impact''))
          \<and> (''improvements['' @ string_of_nat i @ '']'' @ ''.evidence must be an object.''
                \<in> set (errors (validateAnalysisResultSchema v)))
              = (isObject (xs ! i) \<and> \<not> isObject (get_prop (xs ! i) ''evidence''))
          \<and> (''improvements['' @ string_of_nat i @ '']'' @ ''.evidence.resumeQuotes must be string[].''
                \<in> set (errors (validateAnalysisResultSchema v)))
              = (isObject (xs ! i) \<and> isObject (get_prop (xs ! i) ''evidence'')
                 \<and> \<not> isStringArray (get_prop (get_prop (xs ! i) ''evidence'') ''resumeQuotes''))
          \<and> (''improvements['' @ string_of_nat i @ '']'' @ ''.evidence.jdQuotes must be string[].''
                \<in> set (errors (validateAnalysisResultSchema v)))
              = (isObject (xs ! i) \<and> isObject (get_prop (xs ! i) ''evidence'')
                 \<and> \<not> isStringArray (get_prop (get_prop (xs ! i) ''evidence'') ''jdQuotes''))
          \<and> (''improvements['' @ string_of_nat i @ '']'' @ ''.evidence.missingKeywords must be string[].''
                \<in> set (errors (validateAnalysisResultSchema v)))
              = (isObject (xs ! i) \<and> isObject (get_prop (xs ! i) ''evidence'')
                 \<and> \<not> isStringArray (get_prop (get_prop (xs ! i) ''evidence'') ''missingKeywords'')))
      \<and> (\<forall>xs i ending. get_prop v ''improvements'' = JArr xs \<and> length xs \<le> i \<longrightarrow>
            ''improvements['' @ string_of_nat i @ '']'' @ ending
              \<notin> set (errors (validateAnalysisResultSchema v)))
      \<and> (''analysisTrace is required and must be an object.'' \<in> set (errors (validateAnalysisResultSchema v)))
          = (\<not> isObject (get_prop v ''analysisTrace''))
      \<and> (''analysisTrace.inputHash must be string.'' \<in> set (errors (validateAnalysisResultSchema v)))
          = (isObject (get_prop v ''analysisTrace'')
             \<and> \<not> isString (get_prop (get_prop v ''analysisTrace'') ''inputHash''))
      \<and> (''analysisTrace.retrievalChunkIds must be string[].'' \<in> set (errors (validateAnalysisResultSchema v)))
          = (isObject (get_prop v ''analysisTrace'')
             \<and> \<not> isStringArray (get_prop (get_prop v ''analysisTrace'') ''retrievalChunkIds''))
      \<and> (''analysisTrace.retrievalTrace must be { chunkId: string; reason: string }[].''
            \<in> set (errors (validateAnalysisResultSchema v)))
          = (isObject (get_prop v ''analysisTrace'')
             \<and> \<not> isRetrievalTraceArray (get_prop (get_prop v ''analysisTrace'') ''retrievalTrace''))
      \<and> (''analysisTrace.modelName must be string.'' \<in> set (errors (validateAnalysisResultSchema v)))
          = (isObject (get_prop v ''analysisTrace'')
             \<and> \<not> isString (get_prop (get_prop v ''analysisTrace'') ''modelName''))
      \<and> (''analysisTrace.tier must be string.'' \<in> set (errors (validateAnalysisResultSchema v)))
          = (isObject (get_prop v ''analysisTrace'')
             \<and> \<not> isString (get_prop (get_prop v ''analysisTrace'') ''tier''))
      \<and> (''analysisTrace.timestamp must be string.'' \<in> set (errors (validateAnalysisResultSchema v)))
          = (isObject (get_prop v ''analysisTrace'')
             \<and> \<not> isString (get_prop (get_prop v ''analysisTrace'') ''timestamp''))
      \<and> (''analysisTrace.retries must be number.'' \<in> set (errors (validateAnalysisResultSchema v)))
          = (isObject (get_prop v ''analysisTrace'')
             \<and> \<not> isNumber (get_prop (get_prop v ''analysisTrace'') ''retries'')))"
proof -
  have general: "\<not> valid (validateAnalysisResultSchema v)
      \<and> ''analysisTrace.retries must be number.'' \<in> set (errors (validateAnalysisResultSchema v))"
    if "isObject v" "isObject (get_prop v ''analysisTrace'')"
       "\<not> isNumber (get_prop (get_prop v ''analysisTrace'') ''retries'')"
  proof -
    have "''analysisTrace.retries must be number.'' \<in> set (schema_errors v)"
      using that by (rule retries_error_reported)
    moreover from this have "schema_errors v \<noteq> []" by auto
    ultimately show ?thesis using that(1) by (simp add: validateAnalysisResultSchema_def)
  qed
  have items: "(''improvements['' @ string_of_nat i @ '']'' @ ending \<in> set (schema_errors v))
      = (''improvements['' @ string_of_nat i @ '']'' @ ending \<in> set (improvement_errors i (xs ! i)))"
    if "get_prop v ''improvements'' = JArr xs" "i < length xs" for xs i ending
    using that(2) by (simp only: improvement_reported [OF that(1)] simp_thms)
  have absent: "''improvements['' @ string_of_nat i @ '']'' @ ending \<notin> set (schema_errors v)"
    if "get_prop v ''improvements'' = JArr xs" "length xs \<le> i" for xs i ending
    using that by (rule improvement_absent)
  have c4: "isObject v \<and> isObject (get_prop v ''analysisTrace'')
        \<and> \<not> isNumber (get_prop (get_prop v ''analysisTrace'') ''retries'')
      \<longrightarrow> \<not> valid (validateAnalysisResultSchema v)
          \<and> ''analysisTrace.retries must be number.'' \<in> set (errors (validateAnalysisResultSchema v))"
    using general by blast
  have c5: "(isObject v \<longrightarrow>
        valid (validateAnalysisResultSchema v) = (errors (validateAnalysisResultSchema v) = [])
      \<and> (''scoreBreakdown is required and must be an object.'' \<in> set (errors (validateAnalysisResultSchema v)))
          = (\<not> isObject (get_prop v ''scoreBreakdown''))
      \<and> (''scoreBreakdown.baseline must be number|null.'' \<in> set (errors (validateAnalysisResultSchema v)))
          = (isObject (get_prop v ''scoreBreakdown'')
             \<and> \<not> isNullableNumber (get_prop (get_prop v ''scoreBreakdown'') ''baseline''))
      \<and> (''scoreBreakdown.enhanced must be number|null.'' \<in> set (errors (validateAnalysisResultSchema v)))
          = (isObject (get_prop v ''scoreBreakdown'')
             \<and> \<not> isNullableNumber (get_prop (get_prop v ''scoreBreakdown'') ''enhanced''))
      \<and> (''scoreBreakdown.explanation must be string|null.'' \<in> set (errors (validateAnalysisResultSchema v)))
          = (isObject (get_prop v ''scoreBreakdown'')
             \<and> \<not> isNullableString (get_prop (get_prop v ''scoreBreakdown'') ''explanation''))
      \<and> (''jobFitScore must be number|null.'' \<in> set (errors (validateAnalysisResultSchema v)))
          = (\<not> isNullableNumber (get_prop v ''jobFitScore''))
      \<and> (''overallFeedback must be string|null.'' \<in> set (errors (validateAnalysisResultSchema v)))
          = (\<not> isNullableString (get_prop v ''overallFeedback''))
      \<and> (''optimizedResume must be string|null.'' \<in> set (errors (validateAnalysisResultSchema v)))
          = (\<not> isNullableString (get_prop v ''optimizedResume''))
      \<and> (''optimizedCoverLetter must be string|null.'' \<in> set (errors (validateAnalysisResultSchema v)))
          = (\<not> isNullableString (get_prop v ''optimizedCoverLetter''))
      \<and> (''portfolioAdvice must be string|null.'' \<in> set (errors (validateAnalysisResultSchema v)))
          = (\<not> isNullableString (get_prop v ''portfolioAdvice''))
      \<and> (''recruiterNotes must be string|null.'' \<in> set (errors (validateAnalysisResultSchema v)))
          = (\<not> isNullableString (get_prop v ''recruiterNotes''))
      \<and> (''evidenceSnippetWordLimit must be a number.'' \<in> set (errors (validateAnalysisResultSchema v)))
          = (\<not> isNumber (get_prop v ''evidenceSnippetWordLimit''))
      \<and> (''keywordCoverage is required and must be an object.'' \<in> set (errors (validateAnalysisResultSchema v)))
          = (\<not> isObject (get_prop v ''keywordCoverage''))
      \<and> (''keywordCoverage.matched must be string[].'' \<in> set (errors (validateAnalysisResultSchema v)))
          = (isObject (get_prop v ''keywordCoverage'')
             \<and> \<not> isStringArray (get_prop (get_prop v ''keywordCoverage'') ''matched''))
      \<and> (''keywordCoverage.missing must be string[].'' \<in> set (errors (validateAnalysisResultSchema v)))
          = (isObject (get_prop v ''keywordCoverage'')
             \<and> \<not> isStringArray (get_prop (get_prop v ''keywordCoverage'') ''missing''))
      \<and> (''keywordCoverage.partial must be string[].'' \<in> set (errors (validateAnalysisResultSchema v)))
          = (isObject (get_prop v ''keywordCoverage'')
             \<and> \<not> isStringArray (get_prop (get_prop v ''keywordCoverage'') ''partial''))
      \<and> (''hardRequirementsMissing must be string[].'' \<in> set (errors (validateAnalysisResultSchema v)))
          = (\<not> isStringArray (get_prop v ''hardRequirementsMissing''))
      \<and> (''improvements must be an array.'' \<in> set (errors (validateAnalysisResultSchema v)))
          = (\<forall>xs. get_prop v ''improvements'' \<noteq> JArr xs)
      \<and> (\<forall>xs i. get_prop v ''improvements'' = JArr xs \<and> i < length xs \<longrightarrow>
            (''improvements['' @ string_of_nat i @ '']'' @ '' must be an object.''
                \<in> set (errors (validateAnalysisResultSchema v)))
              = (\<not> isObject (xs ! i))
          \<and> (''improvements['' @ string_of_nat i @ '']'' @ ''.point must be string|null.''
                \<in> set (errors (validateAnalysisResultSchema v)))
              = (isObject (xs ! i) \<and> \<not> isNullableString (get_prop (xs ! i) ''point''))
          \<and> (''improvements['' @ string_of_nat i @ '']'' @ ''.category must be '' @ [CHR 0x22] @ ''critical''
                  @ [CHR 0x22] @ ''|'' @ [CHR 0x22] @ ''optional'' @ [CHR 0x22] @ ''.''
                \<in> set (errors (validateAnalysisResultSchema v)))
              = (isObject (xs ! i) \<and> get_prop (xs ! i) ''category'' \<noteq> JStr ''critical''
                 \<and> get_prop (xs ! i) ''category'' \<noteq> JStr ''optional'')
          \<and> (''improvements['' @ string_of_nat i @ '']'' @ ''.impact must be string|null.''
                \<in> set (errors (validateAnalysisResultSchema v)))
              = (isObject (xs ! i) \<and> \<not> isNullableString (get_prop (xs ! i) ''impact''))
          \<and> (''improvements['' @ string_of_nat i @ '']'' @ ''.evidence must be an object.''
                \<in> set (errors (validateAnalysisResultSchema v)))
              = (isObject (xs ! i) \<and> \<not> isObject (get_prop (xs ! i) ''evidence''))
          \<and> (''improvements['' @ string_of_nat i @ '']'' @ ''.evidence.resumeQuotes must be string[].''
                \<in> set (errors (validateAnalysisResultSchema v)))
              = (isObject (xs ! i) \<and> isObject (get_prop (xs ! i) ''evidence'')
                 \<and> \<not> isStringArray (get_prop (get_prop (xs ! i) ''evidence'') ''resumeQuotes''))
          \<and> (''improvements['' @ string_of_nat i @ '']'' @ ''.evidence.jdQuotes must be string[].''
                \<in> set (errors (validateAnalysisResultSchema v)))
              = (isObject (xs ! i) \<and> isObject (get_prop (xs ! i) ''evidence'')
                 \<and> \<not> isStringArray (get_prop (get_prop (xs ! i) ''evidence'') ''jdQuotes''))
          \<and> (''improvements['' @ string_of_nat i @ '']'' @ ''.evidence.missingKeywords must be string[].''
                \<in> set (errors (validateAnalysisResultSchema v)))
              = (isObject (xs ! i) \<and> isObject (get_prop (xs ! i) ''evidence'')
                 \<and> \<not> isStringArray (get_prop (get_prop (xs ! i) ''evidence'') ''missingKeywords'')))
      \<and> (\<forall>xs i ending. get_prop v ''improvements'' = JArr xs \<and> length xs \<le> i \<longrightarrow>
            ''improvements['' @ string_of_nat i @ '']'' @ ending
              \<notin> set (errors (validateAnalysisResultSchema v)))
      \<and> (''analysisTrace is required and must be an object.'' \<in> set (errors (validateAnalysisResultSchema v)))
          = (\<not> isObject (get_prop v ''analysisTrace''))
      \<and> (''analysisTrace.inputHash must be string.'' \<in> set (errors (validateAnalysisResultSchema v)))
          = (isObject (get_prop v ''analysisTrace'')
             \<and> \<not> isString (get_prop (get_prop v ''analysisTrace'') ''inputHash''))
      \<and> (''analysisTrace.retrievalChunkIds must be string[].'' \<in> set (errors (validateAnalysisResultSchema v)))
          = (isObject (get_prop v ''analysisTrace'')
             \<and> \<not> isStringArray (get_prop (get_prop v ''analysisTrace'') ''retrievalChunkIds''))
      \<and> (''analysisTrace.retrievalTrace must be { chunkId: string; reason: string }[].''
            \<in> set (errors (validateAnalysisResultSchema v)))
          = (isObject (get_prop v ''analysisTrace'')
             \<and> \<not> isRetrievalTraceArray (get_prop (get_prop v ''analysisTrace'') ''retrievalTrace''))
      \<and> (''analysisTrace.modelName must be string.'' \<in> set (errors (validateAnalysisResultSchema v)))
          = (isObject (get_prop v ''analysisTrace'')
             \<and> \<not> isString (get_prop (get_prop v ''analysisTrace'') ''modelName''))
      \<and> (''analysisTrace.tier must be string.'' \<in> set (errors (validateAnalysisResultSchema v)))
          = (isObject (get_prop v ''analysisTrace'')
             \<and> \<not> isString (get_prop (get_prop v ''analysisTrace'') ''tier''))
      \<and> (''analysisTrace.timestamp must be string.'' \<in> set (errors (validateAnalysisResultSchema v)))
          = (isObject (get_prop v ''analysisTrace'')
             \<and> \<not> isString (get_prop (get_prop v ''analysisTrace'') ''timestamp''))
      \<and> (''analysisTrace.retries must be number.'' \<in> set (errors (validateAnalysisResultSchema v)))
          = (isObject (get_prop v ''analysisTrace'')
             \<and> \<not> isNumber (get_prop (get_prop v ''analysisTrace'') ''retries'')))"
  proof (rule impI)
    assume obj: "isObject v"
    note E = object_validation [OF obj]
    have groups: "(\<forall>xs i. get_prop v ''improvements'' = JArr xs \<and> i < length xs \<longrightarrow>
            (''improvements['' @ string_of_nat i @ '']'' @ '' must be an object.'' \<in> set (schema_errors v))
              = (\<not> isObject (xs ! i))
          \<and> (''improvements['' @ string_of_nat i @ '']'' @ ''.point must be string|null.''
                \<in> set (schema_errors v))
              = (isObject (xs ! i) \<and> \<not> isNullableString (get_prop (xs ! i) ''point''))
          \<and> (''improvements['' @ string_of_nat i @ '']'' @ ''.category must be '' @ [CHR 0x22] @ ''critical''
                  @ [CHR 0x22] @ ''|'' @ [CHR 0x22] @ ''optional'' @ [CHR 0x22] @ ''.''
                \<in> set (schema_errors v))
              = (isObject (xs ! i) \<and> get_prop (xs ! i) ''category'' \<noteq> JStr ''critical''
                 \<and> get_prop (xs ! i) ''category'' \<noteq> JStr ''optional'')
          \<and> (''improvements['' @ string_of_nat i @ '']'' @ ''.impact must be string|null.''
                \<in> set (schema_errors v))
              = (isObject (xs ! i) \<and> \<not> isNullableString (get_prop (xs ! i) ''impact''))
          \<and> (''improvements['' @ string_of_nat i @ '']'' @ ''.evidence must be an object.''
                \<in> set (schema_errors v))
              = (isObject (xs ! i) \<and> \<not> isObject (get_prop (xs ! i) ''evidence''))
          \<and> (''improvements['' @ string_of_nat i @ '']'' @ ''.evidence.resumeQuotes must be string[].''
                \<in> set (schema_errors v))
              = (isObject (xs ! i) \<and> isObject (get_prop (xs ! i) ''evidence'')
                 \<and> \<not> isStringArray (get_prop (get_prop (xs ! i) ''evidence'') ''resumeQuotes''))
          \<and> (''improvements['' @ string_of_nat i @ '']'' @ ''.evidence.jdQuotes must be string[].''
                \<in> set (schema_errors v))
              = (isObject (xs ! i) \<and> isObject (get_prop (xs ! i) ''evidence'')
                 \<and> \<not> isStringArray (get_prop (get_prop (xs ! i) ''evidence'') ''jdQuotes''))
          \<and> (''improvements['' @ string_of_nat i @ '']'' @ ''.evidence.missingKeywords must be string[].''
                \<in> set (schema_errors v))
              = (isObject (xs ! i) \<and> isObject (get_prop (xs ! i) ''evidence'')
                 \<and> \<not> isStringArray (get_prop (get_prop (xs ! i) ''evidence'') ''missingKeywords'')))"
      by (intro allI impI, elim conjE) (simp only: items improvement_checks simp_thms)
    have none: "\<forall>xs i ending. get_prop v ''improvements'' = JArr xs \<and> length xs \<le> i \<longrightarrow>
            ''improvements['' @ string_of_nat i @ '']'' @ ending \<notin> set (schema_errors v)"
      using absent by blast
    show "valid (validateAnalysisResultSchema v) = (errors (validateAnalysisResultSchema v) = [])
      \<and> (''scoreBreakdown is required and must be an object.'' \<in> set (errors (validateAnalysisResultSchema v)))
          = (\<not> isObject (get_prop v ''scoreBreakdown''))
      \<and> (''scoreBreakdown.baseline must be number|null.'' \<in> set (errors (validateAnalysisResultSchema v)))
          = (isObject (get_prop v ''scoreBreakdown'')
             \<and> \<not> isNullableNumber (get_prop (get_prop v ''scoreBreakdown'') ''baseline''))
      \<and> (''scoreBreakdown.enhanced must be number|null.'' \<in> set (errors (validateAnalysisResultSchema v)))
          = (isObject (get_prop v ''scoreBreakdown'')
             \<and> \<not> isNullableNumber (get_prop (get_prop v ''scoreBreakdown'') ''enhanced''))
      \<and> (''scoreBreakdown.explanation must be string|null.'' \<in> set (errors (validateAnalysisResultSchema v)))
          = (isObject (get_prop v ''scoreBreakdown'')
             \<and> \<not> isNullableString (get_prop (get_prop v ''scoreBreakdown'') ''explanation''))
      \<and> (''jobFitScore must be number|null.'' \<in> set (errors (validateAnalysisResultSchema v)))
          = (\<not> isNullableNumber (get_prop v ''jobFitScore''))
      \<and> (''overallFeedback must be string|null.'' \<in> set (errors (validateAnalysisResultSchema v)))
          = (\<not> isNullableString (get_prop v ''overallFeedback''))
      \<and> (''optimizedResume must be string|null.'' \<in> set (errors (validateAnalysisResultSchema v)))
          = (\<not> isNullableString (get_prop v ''optimizedResume''))
      \<and> (''optimizedCoverLetter must be string|null.'' \<in> set (errors (validateAnalysisResultSchema v)))
          = (\<not> isNullableString (get_prop v ''optimizedCoverLetter''))
      \<and> (''portfolioAdvice must be string|null.'' \<in> set (errors (validateAnalysisResultSchema v)))
          = (\<not> isNullableString (get_prop v ''portfolioAdvice''))
      \<and> (''recruiterNotes must be string|null.'' \<in> set (errors (validateAnalysisResultSchema v)))
          = (\<not> isNullableString (get_prop v ''recruiterNotes''))
      \<and> (''evidenceSnippetWordLimit must be a number.'' \<in> set (errors (validateAnalysisResultSchema v)))
          = (\<not> isNumber (get_prop v ''evidenceSnippetWordLimit''))
      \<and> (''keywordCoverage is required and must be an object.'' \<in> set (errors (validateAnalysisResultSchema v)))
          = (\<not> isObject (get_prop v ''keywordCoverage''))
      \<and> (''keywordCoverage.matched must be string[].'' \<in> set (errors (validateAnalysisResultSchema v)))
          = (isObject (get_prop v ''keywordCoverage'')
             \<and> \<not> isStringArray (get_prop (get_prop v ''keywordCoverage'') ''matched''))
      \<and> (''keywordCoverage.missing must be string[].'' \<in> set (errors (validateAnalysisResultSchema v)))
          = (isObject (get_prop v ''keywordCoverage'')
             \<and> \<not> isStringArray (get_prop (get_prop v ''keywordCoverage'') ''missing''))
      \<and> (''keywordCoverage.partial must be string[].'' \<in> set (errors (validateAnalysisResultSchema v)))
          = (isObject (get_prop v ''keywordCoverage'')
             \<and> \<not> isStringArray (get_prop (get_prop v ''keywordCoverage'') ''partial''))
      \<and> (''hardRequirementsMissing must be string[].'' \<in> set (errors (validateAnalysisResultSchema v)))
          = (\<not> isStringArray (get_prop v ''hardRequirementsMissing''))
      \<and> (''improvements must be an array.'' \<in> set (errors (validateAnalysisResultSchema v)))
          = (\<forall>xs. get_prop v ''improvements'' \<noteq> JArr xs)
      \<and> (\<forall>xs i. get_prop v ''improvements'' = JArr xs \<and> i < length xs \<longrightarrow>
            (''improvements['' @ string_of_nat i @ '']'' @ '' must be an object.''
                \<in> set (errors (validateAnalysisResultSchema v)))
              = (\<not> isObject (xs ! i))
          \<and> (''improvements['' @ string_of_nat i @ '']'' @ ''.point must be string|null.''
                \<in> set (errors (validateAnalysisResultSchema v)))
              = (isObject (xs ! i) \<and> \<not> isNullableString (get_prop (xs ! i) ''point''))
          \<and> (''improvements['' @ string_of_nat i @ '']'' @ ''.category must be '' @ [CHR 0x22] @ ''critical''
                  @ [CHR 0x22] @ ''|'' @ [CHR 0x22] @ ''optional'' @ [CHR 0x22] @ ''.''
                \<in> set (errors (validateAnalysisResultSchema v)))
              = (isObject (xs ! i) \<and> get_prop (xs ! i) ''category'' \<noteq> JStr ''critical''
                 \<and> get_prop (xs ! i) ''category'' \<noteq> JStr ''optional'')
          \<and> (''improvements['' @ string_of_nat i @ '']'' @ ''.impact must be string|null.''
                \<in> set (errors (validateAnalysisResultSchema v)))
              = (isObject (xs ! i) \<and> \<not> isNullableString (get_prop (xs ! i) ''impact''))
          \<and> (''improvements['' @ string_of_nat i @ '']'' @ ''.evidence must be an object.''
                \<in> set (errors (validateAnalysisResultSchema v)))
              = (isObject (xs ! i) \<and> \<not> isObject (get_prop (xs ! i) ''evidence''))
          \<and> (''improvements['' @ string_of_nat i @ '']'' @ ''.evidence.resumeQuotes must be string[].''
                \<in> set (errors (validateAnalysisResultSchema v)))
              = (isObject (xs ! i) \<and> isObject (get_prop (xs ! i) ''evidence'')
                 \<and> \<not> isStringArray (get_prop (get_prop (xs ! i) ''evidence'') ''resumeQuotes''))
          \<and> (''improvements['' @ string_of_nat i @ '']'' @ ''.evidence.jdQuotes must be string[].''
                \<in> set (errors (validateAnalysisResultSchema v)))
              = (isObject (xs ! i) \<and> isObject (get_prop (xs ! i) ''evidence'')
                 \<and> \<not> isStringArray (get_prop (get_prop (xs ! i) ''evidence'') ''jdQuotes''))
          \<and> (''improvements['' @ string_of_nat i @ '']'' @ ''.evidence.missingKeywords must be string[].''
                \<in> set (errors (validateAnalysisResultSchema v)))
              = (isObject (xs ! i) \<and> isObject (get_prop (xs ! i) ''evidence'')
                 \<and> \<not> isStringArray (get_prop (get_prop (xs ! i) ''evidence'') ''missingKeywords'')))
      \<and> (\<forall>xs i ending. get_prop v ''improvements'' = JArr xs \<and> length xs \<le> i \<longrightarrow>
            ''improvements['' @ string_of_nat i @ '']'' @ ending
              \<notin> set (errors (validateAnalysisResultSchema v)))
      \<and> (''analysisTrace is required and must be an object.'' \<in> set (errors (validateAnalysisResultSchema v)))
          = (\<not> isObject (get_prop v ''analysisTrace''))
      \<and> (''analysisTrace.inputHash must be string.'' \<in> set (errors (validateAnalysisResultSchema v)))
          = (isObject (get_prop v ''analysisTrace'')
             \<and> \<not> isString (get_prop (get_prop v ''analysisTrace'') ''inputHash''))
      \<and> (''analysisTrace.retrievalChunkIds must be string[].'' \<in> set (errors (validateAnalysisResultSchema v)))
          = (isObject (get_prop v ''analysisTrace'')
             \<and> \<not> isStringArray (get_prop (get_prop v ''analysisTrace'') ''retrievalChunkIds''))
      \<and> (''analysisTrace.retrievalTrace must be { chunkId: string; reason: string }[].''
            \<in> set (errors (validateAnalysisResultSchema v)))
          = (isObject (get_prop v ''analysisTrace'')
             \<and> \<not> isRetrievalTraceArray (get_prop (get_prop v ''analysisTrace'') ''retrievalTrace''))
      \<and> (''analysisTrace.modelName must be string.'' \<in> set (errors (validateAnalysisResultSchema v)))
          = (isObject (get_prop v ''analysisTrace'')
             \<and> \<not> isString (get_prop (get_prop v ''analysisTrace'') ''modelName''))
      \<and> (''analysisTrace.tier must be string.'' \<in> set (errors (validateAnalysisResultSchema v)))
          = (isObject (get_prop v ''analysisTrace'')
             \<and> \<not> isString (get_prop (get_prop v ''analysisTrace'') ''tier''))
      \<and> (''analysisTrace.timestamp must be string.'' \<in> set (errors (validateAnalysisResultSchema v)))
          = (isObject (get_prop v ''analysisTrace'')
             \<and> \<not> isString (get_prop (get_prop v ''analysisTrace'') ''timestamp''))
      \<and> (''analysisTrace.retries must be number.'' \<in> set (errors (validateAnalysisResultSchema v)))
          = (isObject (get_prop v ''analysisTrace'')
             \<and> \<not> isNumber (get_prop (get_prop v ''analysisTrace'') ''retries''))"
      unfolding E
      using groups none
      by (simp only: scoreBreakdown_reported top_level_reported keywordCoverage_reported
          analysisTrace_reported improvements_array_reported simp_thms)
  qed
  show ?thesis
    by (intro conjI validate_typed validate_retries_string validate_two_defects c4 c5)
qed

lemma string_of_nat_0_1: "string_of_nat 0 = ''0''" "string_of_nat (Suc 0) = ''1''"
  by code_simp+

text \<open>A payload with four defects at once, two of them inside \<open>improvements\<close>.\<close>

theorem validateAnalysisResultSchema_accumulates_witness:
  "validateAnalysisResultSchema (js_analysis_result validResult) = \<lparr>valid = True, errors = []\<rparr>
   \<and> validateAnalysisResultSchema (with_retries validResult (JStr ''one''))
       = \<lparr>valid = False, errors = [''analysisTrace.retries must be number.'']\<rparr>
   \<and> \<not> valid (validateAnalysisResultSchema (JObj [(''analysisTrace'', JObj [(''retries'', JStr ''one'')])]))
   \<and> ''analysisTrace.retries must be number.''
       \<in> set (errors (validateAnalysisResultSchema
             (JObj [(''analysisTrace'', JObj [(''retries'', JStr ''one'')])])))
   \<and> isObject (JObj [(''overallFeedback'', JNum (Num 1)),
          (''improvements'', JArr [JStr ''x'', JObj [(''point'', JBool True)]]),
          (''analysisTrace'', JObj [(''retries'', JStr ''one'')])])
   \<and> {''overallFeedback must be string|null.'', ''improvements[0] must be an object.'',
        ''improvements[1].point must be string|null.'', ''analysisTrace.retries must be number.''}
       \<subseteq> set (errors (validateAnalysisResultSchema
             (JObj [(''overallFeedback'', JNum (Num 1)),
                    (''improvements'', JArr [JStr ''x'', JObj [(''point'', JBool True)]]),
                    (''analysisTrace'', JObj [(''retries'', JStr ''one'')])])))
   \<and> ''improvements[0].point must be string|null.''
       \<notin> set (errors (validateAnalysisResultSchema
             (JObj [(''overallFeedback'', JNum (Num 1)),
                    (''improvements'', JArr [JStr ''x'', JObj [(''point'', JBool True)]]),
                    (''analysisTrace'', JObj [(''retries'', JStr ''one'')])])))"
proof -
  let ?w = "JObj [(''analysisTrace'', JObj [(''retries'', JStr ''one'')])]"
  let ?xs = "[JStr ''x'', JObj [(''point'', JBool True)]]"
  let ?v = "JObj [(''overallFeedback'', JNum (Num 1)), (''improvements'', JArr ?xs),
                  (''analysisTrace'', JObj [(''retries'', JStr ''one'')])]"
  note first = validateAnalysisResultSchema_accumulates [of validResult "''one''" "''x''" ?w]
  note second = validateAnalysisResultSchema_accumulates [of validResult "''one''" "''x''" ?v]
  have obj: "isObject ?v" by (simp add: isObject_def)
  have typed: "validateAnalysisResultSchema (js_analysis_result validResult) = \<lparr>valid = True, errors = []\<rparr>"
    and retries: "validateAnalysisResultSchema (with_retries validResult (JStr ''one''))
       = \<lparr>valid = False, errors = [''analysisTrace.retries must be number.'']\<rparr>"
    using first by blast+
  have small: "\<not> valid (validateAnalysisResultSchema ?w)
      \<and> ''analysisTrace.retries must be number.'' \<in> set (errors (validateAnalysisResultSchema ?w))"
    using first [THEN conjunct2, THEN conjunct2, THEN conjunct2, THEN conjunct1]
    by (simp add: isObject_def isNumber_def)
  note every = second [THEN conjunct2, THEN conjunct2, THEN conjunct2, THEN conjunct2, THEN mp, OF obj]
  have feedback: "''overallFeedback must be string|null.'' \<in> set (errors (validateAnalysisResultSchema ?v))"
    and trace: "''analysisTrace.retries must be number.'' \<in> set (errors (validateAnalysisResultSchema ?v))"
    using every by (simp_all add: isObject_def isNumber_def isNullableString_def isString_def)
  note item = every [THEN conjunct2, THEN conjunct2, THEN conjunct2, THEN conjunct2, THEN conjunct2, THEN conjunct2, THEN conjunct2, THEN conjunct2, THEN conjunct2, THEN conjunct2, THEN conjunct2, THEN conjunct2, THEN conjunct2, THEN conjunct2, THEN conjunct2, THEN conjunct2, THEN conjunct2, THEN conjunct2, THEN conjunct1]
  have at0: "''improvements[0] must be an object.'' \<in> set (errors (validateAnalysisResultSchema ?v))"
    and not0: "''improvements[0].point must be string|null.'' \<notin> set (errors (validateAnalysisResultSchema ?v))"
    using item [rule_format, of ?xs 0]
    by (simp_all add: string_of_nat_0_1 isObject_def)
  have at1: "''improvements[1].point must be string|null.'' \<in> set (errors (validateAnalysisResultSchema ?v))"
    using item [rule_format, of ?xs 1]
    by (simp add: string_of_nat_0_1 isObject_def isNullableString_def isString_def)
  show ?thesis
    using typed retries small obj feedback trace at0 not0 at1 by (intro conjI) simp_all
qed

end
